theory Spec2Isabelle
  imports
    Main
    "HOL-Library.Multiset"
    "HOL-Library.Char_ord"
    "HOL-Library.List_Lexorder"
begin

section \<open>Tables of the notebook\<close>

text \<open>
  The notebook \<^verbatim>\<open>klifs_ids.ipynb\<close> works on pandas tables. A table has an ordered list
  of column names and a list of rows; every row carries its label (the entry of the
  table's index) and one cell per column. The identifier columns hold integers
  (\<^verbatim>\<open>int64\<close>) and Python strings, and a missing entry is \<^verbatim>\<open>NaN\<close>; these are the three
  kinds of cell of the model. Strings are sequences of bytes (the UTF-8 encoding).
\<close>

datatype cell = IntC int | StrC string | NaN

record dataframe =
  columns :: "string list"
  rows :: "(int \<times> cell list) list"

text \<open>The exceptions of Python and pandas that the notebook's calls can raise.\<close>

datatype exn =
    KeyError "string list"
  | ValueError string
  | TypeError string
  | OSError string
  | FileNotFoundError string
  | BadZipFile string
  | EmptyDataError
  | ParserError string
  | UnicodeDecodeError string
  | RemoteError string

text \<open>
  Python orders integers by value and strings by code point, position by position.
  Where pandas has to order values of several kinds (the keys of a \<^verbatim>\<open>groupby\<close>), numbers
  come first, then strings, then missing values; a sort places missing values last.
\<close>

instantiation cell :: linorder
begin

fun less_eq_cell :: "cell \<Rightarrow> cell \<Rightarrow> bool" where
  "less_eq_cell (IntC a) (IntC b) = (a \<le> b)"
| "less_eq_cell (IntC a) (StrC t) = True"
| "less_eq_cell (IntC a) NaN = True"
| "less_eq_cell (StrC s) (IntC b) = False"
| "less_eq_cell (StrC s) (StrC t) = (s \<le> t)"
| "less_eq_cell (StrC s) NaN = True"
| "less_eq_cell NaN (IntC b) = False"
| "less_eq_cell NaN (StrC t) = False"
| "less_eq_cell NaN NaN = True"

definition less_cell :: "cell \<Rightarrow> cell \<Rightarrow> bool" where
  "less_cell x y = (x \<le> y \<and> \<not> y \<le> x)"

instance
proof
  fix x y z :: cell
  show "(x < y) = (x \<le> y \<and> \<not> y \<le> x)"
    by (simp add: less_cell_def)
  show "x \<le> x"
    by (cases x) simp_all
  show "x \<le> y \<Longrightarrow> y \<le> z \<Longrightarrow> x \<le> z"
    by (cases x; cases y; cases z) auto
  show "x \<le> y \<Longrightarrow> y \<le> x \<Longrightarrow> x = y"
    by (cases x; cases y) auto
  show "x \<le> y \<or> y \<le> x"
    by (cases x; cases y) auto
qed

end

fun is_int :: "cell \<Rightarrow> bool" where
  "is_int (IntC i) = True"
| "is_int c = False"

fun is_str :: "cell \<Rightarrow> bool" where
  "is_str (StrC s) = True"
| "is_str c = False"

subsection \<open>Reading a row by column name\<close>

text \<open>
  \<open>select wanted cols vals\<close> picks from \<open>vals\<close>, which is aligned with the column names
  \<open>cols\<close>, the entries of the columns named in \<open>wanted\<close>, in the order of \<open>wanted\<close>; a name
  that several columns carry selects all of them, as pandas does.
\<close>

definition select :: "string list \<Rightarrow> string list \<Rightarrow> 'a list \<Rightarrow> 'a list" where
  "select wanted cols vals =
     concat (map (\<lambda>w. map snd (filter (\<lambda>(n, v). n = w) (zip cols vals))) wanted)"

definition cell_of :: "string list \<Rightarrow> cell list \<Rightarrow> string \<Rightarrow> cell" where
  "cell_of cols r name = (case map_of (zip cols r) name of Some v \<Rightarrow> v | None \<Rightarrow> NaN)"

definition column_cells :: "string \<Rightarrow> dataframe \<Rightarrow> cell list" where
  "column_cells name df = map (\<lambda>(l, r). cell_of (columns df) r name) (rows df)"

definition rectangular :: "dataframe \<Rightarrow> bool" where
  "rectangular df = list_all (\<lambda>(l, r). length r = length (columns df)) (rows df)"

subsection \<open>Column projection: \<^verbatim>\<open>df[[...]]\<close>\<close>

text \<open>
  \<^verbatim>\<open>structures_all[["structure.klifs_id", ...]]\<close> raises \<^verbatim>\<open>KeyError\<close> naming the columns
  that the table lacks; otherwise it keeps the row labels and the selected cells.
\<close>

definition getitem_columns :: "string list \<Rightarrow> dataframe \<Rightarrow> exn + dataframe" where
  "getitem_columns wanted df =
     (case filter (\<lambda>w. w \<notin> set (columns df)) wanted of
        [] \<Rightarrow>
          Inr \<lparr>columns = select wanted (columns df) (columns df),
               rows = map (\<lambda>(l, r). (l, select wanted (columns df) r)) (rows df)\<rparr>
      | m # ms \<Rightarrow> Inl (KeyError (m # ms)))"

subsection \<open>Sorting: \<^verbatim>\<open>sort_values\<close>\<close>

text \<open>
  \<^verbatim>\<open>df.sort_values(by, inplace=True)\<close> orders the rows ascending by the cell in column
  \<open>by\<close>, rows with a missing key last. It raises \<^verbatim>\<open>KeyError\<close> when no column has that
  name, \<^verbatim>\<open>ValueError\<close> when several have it, and \<^verbatim>\<open>TypeError\<close> when the keys mix
  integers and strings, which Python cannot compare. Rows with equal keys are kept in
  their previous order here; pandas' default sort does not promise an order among them.
\<close>

definition sort_values :: "string \<Rightarrow> dataframe \<Rightarrow> exn + dataframe" where
  "sort_values by df =
     (case filter (\<lambda>c. c = by) (columns df) of
        [] \<Rightarrow> Inl (KeyError [by])
      | [c] \<Rightarrow>
          (let keys = column_cells by df
           in if list_ex is_int keys \<and> list_ex is_str keys
              then Inl (TypeError ''< not supported between instances of str and int'')
              else Inr (df\<lparr>rows := sort_key (\<lambda>(l, r). cell_of (columns df) r by) (rows df)\<rparr>))
      | c # d # cs \<Rightarrow> Inl (ValueError ''The column label is not unique''))"

subsection \<open>Grouping: \<^verbatim>\<open>groupby(...).size()\<close>\<close>

text \<open>
  \<^verbatim>\<open>df.groupby(by).size()\<close> is a series that maps each combination of key cells to the
  number of rows that carry it, listed in ascending key order. Rows with a missing key
  are left out (\<^verbatim>\<open>dropna=True\<close>, the default). pandas goes through the keys in turn and
  raises \<^verbatim>\<open>KeyError\<close> at a key that is not a column and \<^verbatim>\<open>ValueError\<close> at a key that
  names several columns. Before that, a list of keys that is as long as the table and
  has a key that is not a column is taken for the group labels of the rows themselves:
  the rows are then grouped by the entries of that list. An empty list of keys is a
  \<^verbatim>\<open>ValueError\<close>.
\<close>

definition group_keys :: "string list \<Rightarrow> dataframe \<Rightarrow> cell list list" where
  "group_keys by df =
     filter (\<lambda>k. NaN \<notin> set k) (map (\<lambda>(l, r). map (cell_of (columns df) r) by) (rows df))"

definition groupby_size :: "string list \<Rightarrow> dataframe \<Rightarrow> exn + (cell list \<times> nat) list" where
  "groupby_size by df =
     (if by = [] then Inl (ValueError ''No group keys passed!'')
      else if length by = length (rows df) \<and> \<not> list_all (\<lambda>k. k \<in> set (columns df)) by
      then Inr (map (\<lambda>k. ([StrC k], count_list by k)) (sort (remdups by)))
      else
        (case filter (\<lambda>k. length (filter (\<lambda>c. c = k) (columns df)) \<noteq> 1) by of
           [] \<Rightarrow>
             Inr (map (\<lambda>k. (k, count_list (group_keys by df) k))
                      (sort (remdups (group_keys by df))))
         | k # ks \<Rightarrow>
             if k \<in> set (columns df)
             then Inl (ValueError (''Grouper for '' @ k @ '' not 1-dimensional''))
             else Inl (KeyError [k])))"

text \<open>\<^verbatim>\<open>sizes[sizes > 1]\<close>: the groups with more than one row.\<close>

definition larger_than_one :: "('k \<times> nat) list \<Rightarrow> ('k \<times> nat) list" where
  "larger_than_one sizes = filter (\<lambda>(k, n). 1 < n) sizes"

subsection \<open>Row selection by a condition\<close>

text \<open>
  \<^verbatim>\<open>df[df[name].isin(values)]\<close> and \<^verbatim>\<open>df[df[name] == value]\<close> keep the rows whose cell in
  column \<open>name\<close> passes the test; \<^verbatim>\<open>df[name]\<close> raises \<^verbatim>\<open>KeyError\<close> when there is no such
  column. When several columns carry the name, \<^verbatim>\<open>df[name]\<close> is a table, the test gives a
  table of truth values, and selecting with it raises \<^verbatim>\<open>ValueError\<close>. A missing cell
  passes neither test.
\<close>

definition rows_where :: "string \<Rightarrow> (cell \<Rightarrow> bool) \<Rightarrow> dataframe \<Rightarrow> exn + dataframe" where
  "rows_where name test df =
     (case filter (\<lambda>c. c = name) (columns df) of
        [] \<Rightarrow> Inl (KeyError [name])
      | [c] \<Rightarrow> Inr (df\<lparr>rows := filter (\<lambda>(l, r). test (cell_of (columns df) r name)) (rows df)\<rparr>)
      | c # d # cs \<Rightarrow> Inl (ValueError ''cannot reindex on an axis with duplicate labels''))"

definition head :: "dataframe \<Rightarrow> dataframe" where
  "head df = df\<lparr>rows := take 5 (rows df)\<rparr>"

section \<open>Writing the table: \<^verbatim>\<open>to_csv\<close>\<close>

subsection \<open>Decimal numerals\<close>

definition digit_char :: "nat \<Rightarrow> char" where
  "digit_char d = char_of (48 + d)"

function str_nat :: "nat \<Rightarrow> string" where
  "str_nat n = (if n < 10 then [digit_char n] else str_nat (n div 10) @ [digit_char (n mod 10)])"
  by pat_completeness auto
termination
  by (relation "measure (\<lambda>n. n)") auto

declare str_nat.simps [simp del]

text \<open>Python's \<^verbatim>\<open>str\<close> of an integer.\<close>

definition str_int :: "int \<Rightarrow> string" where
  "str_int i = (if i < 0 then CHR ''-'' # str_nat (nat (- i)) else str_nat (nat i))"

subsection \<open>The text of the file\<close>

text \<open>
  \<^verbatim>\<open>to_csv\<close> hands the header and then every row to Python's \<^verbatim>\<open>csv.writer\<close> with the
  defaults that the call leaves in place: fields separated by a comma, a line feed after
  every record, a missing value written as the empty string, and minimal quoting. Under
  minimal quoting a field is put in double quotes, with every double quote inside it
  doubled, exactly when it contains the separator, a double quote or a character of the
  line terminator, which is the line feed; a record that consists of one empty field is
  written as two quotes. A carriage return inside a field is written as it is (the
  notebook runs on Python 3.8; later versions of \<^verbatim>\<open>csv.writer\<close> quote such a field).
\<close>

definition comma :: char where "comma = CHR 0x2C"
definition dquote :: char where "dquote = CHR 0x22"
definition LF :: char where "LF = CHR 0x0A"
definition CR :: char where "CR = CHR 0x0D"

definition needs_quotes :: "string \<Rightarrow> bool" where
  "needs_quotes s = list_ex (\<lambda>c. c = comma \<or> c = dquote \<or> c = LF) s"

definition quote_field :: "string \<Rightarrow> string" where
  "quote_field s =
     (if needs_quotes s
      then dquote # concat (map (\<lambda>c. if c = dquote then [dquote, dquote] else [c]) s) @ [dquote]
      else s)"

fun join_fields :: "string list \<Rightarrow> string" where
  "join_fields [] = []"
| "join_fields [f] = f"
| "join_fields (f # g # fs) = f @ comma # join_fields (g # fs)"

definition write_row :: "string list \<Rightarrow> string" where
  "write_row fs =
     (if fs = [[]] then [dquote, dquote, LF]
      else join_fields (map quote_field fs) @ [LF])"

text \<open>
  pandas holds a column of integers in which an entry is missing as floating-point
  numbers, and \<^verbatim>\<open>to_csv\<close> writes the numbers of such a column with a decimal point
  (\<^verbatim>\<open>415.0\<close>). Columns are taken by position here, since several can carry one name.
  (From \<open>10\<^sup>1\<^sup>6\<close> on Python writes a floating-point number with an exponent; the
  identifiers of the notebook are far below.)
\<close>

definition column_at :: "nat \<Rightarrow> dataframe \<Rightarrow> cell list" where
  "column_at j df = map (\<lambda>(l, r). case drop j r of [] \<Rightarrow> NaN | c # cs \<Rightarrow> c) (rows df)"

definition held_as_float :: "nat \<Rightarrow> dataframe \<Rightarrow> bool" where
  "held_as_float j df =
     (list_ex is_int (column_at j df) \<and> list_ex (\<lambda>c. c = NaN) (column_at j df) \<and>
      \<not> list_ex is_str (column_at j df))"

fun cell_text :: "bool \<Rightarrow> cell \<Rightarrow> string" where
  "cell_text as_float (IntC i) = (if as_float then str_int i @ ''.0'' else str_int i)"
| "cell_text as_float (StrC s) = s"
| "cell_text as_float NaN = []"

definition row_texts :: "dataframe \<Rightarrow> cell list \<Rightarrow> string list" where
  "row_texts df r = map (\<lambda>(j, c). cell_text (held_as_float j df) c) (zip [0..<length r] r)"

text \<open>
  The \<^verbatim>\<open>index\<close> argument decides whether the row labels are written as a first column
  (under an empty header field). The notebook passes \<^verbatim>\<open>index=None\<close>, which pandas tests
  for truth like \<^verbatim>\<open>False\<close>.
\<close>

definition csv_records :: "bool option \<Rightarrow> dataframe \<Rightarrow> string list list" where
  "csv_records index_arg df =
     (if index_arg = Some True
      then ([] # columns df) # map (\<lambda>(l, r). str_int l # row_texts df r) (rows df)
      else columns df # map (\<lambda>(l, r). row_texts df r) (rows df))"

definition csv_text :: "bool option \<Rightarrow> dataframe \<Rightarrow> string" where
  "csv_text index_arg df = concat (map write_row (csv_records index_arg df))"

subsection \<open>Files\<close>

text \<open>
  A file is plain text or a zip archive; \<^verbatim>\<open>to_csv(..., compression="zip")\<close> writes an
  archive with one member that holds the text. The operating system can refuse the
  write; \<open>refusal\<close> is its answer for the file name.
\<close>

datatype compression = No_compression | Zip

datatype stored = Plain string | Archive "string list"

type_synonym filesystem = "string \<Rightarrow> stored option"

definition to_csv ::
  "string \<Rightarrow> bool option \<Rightarrow> compression \<Rightarrow> (string \<Rightarrow> exn option) \<Rightarrow> dataframe \<Rightarrow>
     filesystem \<Rightarrow> exn + filesystem" where
  "to_csv name index_arg how refusal df fs =
     (case refusal name of
        Some e \<Rightarrow> Inl e
      | None \<Rightarrow>
          Inr (fs(name \<mapsto> (case how of
                              Zip \<Rightarrow> Archive [csv_text index_arg df]
                            | No_compression \<Rightarrow> Plain (csv_text index_arg df)))))"

subsection \<open>The name of the file\<close>

text \<open>
  \<^verbatim>\<open>date.today()\<close> is a calendar date; Python's dates have years 1 to 9999.
  \<^verbatim>\<open>strftime('%Y%m%d')\<close> prints the year and then month and day with two digits each.
  \<^verbatim>\<open>isoformat()\<close>, the ISO 8601 form, prints \<^verbatim>\<open>YYYY-MM-DD\<close> with four digits for the year.
\<close>

record date =
  year :: nat
  month :: nat
  day :: nat

definition valid_date :: "date \<Rightarrow> bool" where
  "valid_date d = (1 \<le> year d \<and> year d \<le> 9999 \<and> 1 \<le> month d \<and> month d \<le> 12 \<and>
                   1 \<le> day d \<and> day d \<le> 31)"

definition zero_pad :: "nat \<Rightarrow> string \<Rightarrow> string" where
  "zero_pad w s = replicate (w - length s) (CHR ''0'') @ s"

definition strftime_Ymd :: "date \<Rightarrow> string" where
  "strftime_Ymd d = str_nat (year d) @ zero_pad 2 (str_nat (month d)) @ zero_pad 2 (str_nat (day d))"

definition isoformat :: "date \<Rightarrow> string" where
  "isoformat d = zero_pad 4 (str_nat (year d)) @ ''-'' @ zero_pad 2 (str_nat (month d)) @ ''-'' @
                 zero_pad 2 (str_nat (day d))"

definition klifs_filename :: "date \<Rightarrow> string" where
  "klifs_filename d = ''klifs_ids.'' @ strftime_Ymd d @ ''.csv.zip''"

section \<open>Reading the file back: \<^verbatim>\<open>read_csv\<close>\<close>

subsection \<open>The tokenizer\<close>

text \<open>
  pandas' C parser reads the text byte by byte with a state machine. Under the defaults
  of \<^verbatim>\<open>read_csv\<close> a comma ends a field, a line feed, a carriage return or the two
  together end a record, a field that opens with a double quote runs to the closing
  quote (two quotes inside it stand for one), and empty lines and lines of blanks are
  skipped. The states carry the parser's names. A finished field is a C string: it ends
  at its first NUL byte.
\<close>

datatype tstate =
    START_RECORD | WHITESPACE_LINE | START_FIELD | IN_FIELD | IN_QUOTED_FIELD
  | QUOTE_IN_QUOTED_FIELD | EAT_CRNL | EAT_CRNL_NOP

record tokenizer =
  tk_state :: tstate
  tk_word :: string
  tk_line :: "string list"
  tk_lines :: "string list list"
  tk_error :: "exn option"

definition c_string :: "string \<Rightarrow> string" where
  "c_string s = takeWhile (\<lambda>c. c \<noteq> CHR 0x00) s"

definition is_blank :: "char \<Rightarrow> bool" where
  "is_blank c = (c = CHR 0x20 \<or> c = CHR 0x09)"

definition push_char :: "char \<Rightarrow> tokenizer \<Rightarrow> tokenizer" where
  "push_char c t = t\<lparr>tk_word := tk_word t @ [c]\<rparr>"

definition end_field :: "tokenizer \<Rightarrow> tokenizer" where
  "end_field t = t\<lparr>tk_line := tk_line t @ [c_string (tk_word t)], tk_word := []\<rparr>"

text \<open>
  A record that ends is compared with the record before it. From the second data record
  on, more fields than the record before is an error; from the first data record on, a
  shorter record is filled up with empty fields.
\<close>

definition end_line :: "tokenizer \<Rightarrow> tokenizer" where
  "end_line t =
     (let n = length (tk_lines t);
          expected = (if n = 0 then length (tk_line t) else length (last (tk_lines t)))
      in if 1 < n \<and> expected < length (tk_line t)
         then t\<lparr>tk_error := Some (ParserError ''Error tokenizing data: too many fields'')\<rparr>
         else t\<lparr>tk_lines := tk_lines t @ [tk_line t @ replicate (expected - length (tk_line t)) []],
                tk_line := []\<rparr>)"

definition in_field_step :: "char \<Rightarrow> tokenizer \<Rightarrow> tokenizer" where
  "in_field_step c t =
     (if c = LF then (end_line (end_field t))\<lparr>tk_state := START_RECORD\<rparr>
      else if c = CR then (end_field t)\<lparr>tk_state := EAT_CRNL\<rparr>
      else if c = comma then (end_field t)\<lparr>tk_state := START_FIELD\<rparr>
      else (push_char c t)\<lparr>tk_state := IN_FIELD\<rparr>)"

definition start_field_step :: "char \<Rightarrow> tokenizer \<Rightarrow> tokenizer" where
  "start_field_step c t =
     (if c = LF then (end_line (end_field t))\<lparr>tk_state := START_RECORD\<rparr>
      else if c = CR then (end_field t)\<lparr>tk_state := EAT_CRNL\<rparr>
      else if c = dquote then t\<lparr>tk_state := IN_QUOTED_FIELD\<rparr>
      else if c = comma then (end_field t)\<lparr>tk_state := START_FIELD\<rparr>
      else (push_char c t)\<lparr>tk_state := IN_FIELD\<rparr>)"

definition start_record_step :: "char \<Rightarrow> tokenizer \<Rightarrow> tokenizer" where
  "start_record_step c t =
     (if c = LF then t\<lparr>tk_state := START_RECORD\<rparr>
      else if c = CR then t\<lparr>tk_state := EAT_CRNL_NOP\<rparr>
      else if is_blank c then (push_char c t)\<lparr>tk_state := WHITESPACE_LINE\<rparr>
      else start_field_step c t)"

text \<open>
  In a line that began with blanks the parser looks for its end. If the line holds
  nothing else it is dropped; otherwise the parser goes back to the start of the line
  and reads the blanks as the beginning of the first field, which the model has kept in
  \<open>tk_word\<close>.
\<close>

definition whitespace_line_step :: "char \<Rightarrow> tokenizer \<Rightarrow> tokenizer" where
  "whitespace_line_step c t =
     (if c = LF then t\<lparr>tk_word := [], tk_state := START_RECORD\<rparr>
      else if c = CR then t\<lparr>tk_word := [], tk_state := EAT_CRNL_NOP\<rparr>
      else if is_blank c then push_char c t
      else in_field_step c t)"

definition quote_in_quoted_field_step :: "char \<Rightarrow> tokenizer \<Rightarrow> tokenizer" where
  "quote_in_quoted_field_step c t =
     (if c = dquote then (push_char c t)\<lparr>tk_state := IN_QUOTED_FIELD\<rparr>
      else if c = comma then (end_field t)\<lparr>tk_state := START_FIELD\<rparr>
      else if c = LF then (end_line (end_field t))\<lparr>tk_state := START_RECORD\<rparr>
      else if c = CR then (end_field t)\<lparr>tk_state := EAT_CRNL\<rparr>
      else (push_char c t)\<lparr>tk_state := IN_FIELD\<rparr>)"

definition step :: "char \<Rightarrow> tokenizer \<Rightarrow> tokenizer" where
  "step c t =
     (if tk_error t \<noteq> None then t
      else case tk_state t of
        START_RECORD \<Rightarrow> start_record_step c t
      | WHITESPACE_LINE \<Rightarrow> whitespace_line_step c t
      | START_FIELD \<Rightarrow> start_field_step c t
      | IN_FIELD \<Rightarrow> in_field_step c t
      | IN_QUOTED_FIELD \<Rightarrow>
          (if c = dquote then t\<lparr>tk_state := QUOTE_IN_QUOTED_FIELD\<rparr> else push_char c t)
      | QUOTE_IN_QUOTED_FIELD \<Rightarrow> quote_in_quoted_field_step c t
      | EAT_CRNL \<Rightarrow>
          (if c = LF then (end_line t)\<lparr>tk_state := START_RECORD\<rparr>
           else if c = comma then (end_field (end_line t))\<lparr>tk_state := START_FIELD\<rparr>
           else if tk_error (end_line t) \<noteq> None then end_line t
           else start_record_step c ((end_line t)\<lparr>tk_state := START_RECORD\<rparr>))
      | EAT_CRNL_NOP \<Rightarrow>
          (if c = LF then t\<lparr>tk_state := START_RECORD\<rparr>
           else start_record_step c (t\<lparr>tk_state := START_RECORD\<rparr>)))"

text \<open>At the end of the text an open field and record are closed; an open quote is an error.\<close>

definition finish :: "tokenizer \<Rightarrow> tokenizer" where
  "finish t =
     (if tk_error t \<noteq> None then t
      else case tk_state t of
        START_RECORD \<Rightarrow> t
      | WHITESPACE_LINE \<Rightarrow> t
      | EAT_CRNL_NOP \<Rightarrow> t
      | IN_QUOTED_FIELD \<Rightarrow> t\<lparr>tk_error := Some (ParserError ''EOF inside string'')\<rparr>
      | EAT_CRNL \<Rightarrow> end_line t
      | START_FIELD \<Rightarrow> end_line (end_field t)
      | IN_FIELD \<Rightarrow> end_line (end_field t)
      | QUOTE_IN_QUOTED_FIELD \<Rightarrow> end_line (end_field t))"

definition tk_init :: tokenizer where
  "tk_init = \<lparr>tk_state = START_RECORD, tk_word = [], tk_line = [], tk_lines = [], tk_error = None\<rparr>"

definition tokenize :: "string \<Rightarrow> exn + string list list" where
  "tokenize text =
     (let t = finish (fold step text tk_init)
      in case tk_error t of Some e \<Rightarrow> Inl e | None \<Rightarrow> Inr (tk_lines t))"

subsection \<open>Missing values, numbers and booleans\<close>

text \<open>
  The fields that \<^verbatim>\<open>read_csv\<close> takes for a missing value when the call names no others.
\<close>

definition na_values :: "string list" where
  "na_values =
     [[], ''#N/A'', ''#N/A N/A'', ''#NA'', ''-1.#IND'', ''-1.#QNAN'', ''-NaN'', ''-nan'',
      ''1.#IND'', ''1.#QNAN'', ''<NA>'', ''N/A'', ''NA'', ''NULL'', ''NaN'', ''None'', ''n/a'',
      ''nan'', ''null'']"

definition is_na :: "string \<Rightarrow> bool" where
  "is_na t = (t \<in> set na_values)"

definition is_space :: "char \<Rightarrow> bool" where
  "is_space c = (c = CHR 0x20 \<or> (9 \<le> (of_char c :: nat) \<and> (of_char c :: nat) \<le> 13))"

definition is_digit :: "char \<Rightarrow> bool" where
  "is_digit c = (48 \<le> (of_char c :: nat) \<and> (of_char c :: nat) \<le> 57)"

definition digit_value :: "char \<Rightarrow> nat" where
  "digit_value c = of_char c - 48"

definition dec_value :: "string \<Rightarrow> nat" where
  "dec_value ds = foldl (\<lambda>a c. 10 * a + digit_value c) 0 ds"

definition skip_sign :: "string \<Rightarrow> string" where
  "skip_sign s =
     (case s of [] \<Rightarrow> [] | c # cs \<Rightarrow> if c = CHR ''-'' \<or> c = CHR ''+'' then cs else c # cs)"

text \<open>
  An integer field: blanks, an optional sign, at least one digit, blanks.
\<close>

definition is_int_token :: "string \<Rightarrow> bool" where
  "is_int_token t =
     (let s = skip_sign (dropWhile is_space t)
      in takeWhile is_digit s \<noteq> [] \<and> list_all is_space (dropWhile is_digit s))"

definition int_value :: "string \<Rightarrow> int" where
  "int_value t =
     (let s = dropWhile is_space t;
          v = int (dec_value (takeWhile is_digit (skip_sign s)))
      in case s of [] \<Rightarrow> v | c # cs \<Rightarrow> if c = CHR ''-'' then - v else v)"

definition upper :: "char \<Rightarrow> char" where
  "upper c = (if 97 \<le> (of_char c :: nat) \<and> (of_char c :: nat) \<le> 122
              then char_of ((of_char c :: nat) - 32) else c)"

text \<open>
  A floating-point field: blanks, an optional sign, digits with an optional decimal
  point among them (at least one digit), an optional exponent, blanks; or an infinity.
  An exponent mark that no digit follows is not part of the number, so that such a
  field is no number.
\<close>

definition skip_fraction :: "string \<Rightarrow> string" where
  "skip_fraction s =
     (case s of [] \<Rightarrow> [] | c # cs \<Rightarrow> if c = CHR ''.'' then dropWhile is_digit cs else c # cs)"

definition fraction_digits :: "string \<Rightarrow> string" where
  "fraction_digits s =
     (case s of [] \<Rightarrow> [] | c # cs \<Rightarrow> if c = CHR ''.'' then takeWhile is_digit cs else [])"

definition skip_exponent :: "string \<Rightarrow> string" where
  "skip_exponent s =
     (case s of [] \<Rightarrow> []
      | c # cs \<Rightarrow>
          if upper c = CHR ''E'' \<and> takeWhile is_digit (skip_sign cs) \<noteq> []
          then dropWhile is_digit (skip_sign cs) else c # cs)"

definition is_float_token :: "string \<Rightarrow> bool" where
  "is_float_token t =
     (let s = skip_sign (dropWhile is_space t);
          r = dropWhile is_digit s
      in (takeWhile is_digit s @ fraction_digits r \<noteq> [] \<and>
          list_all is_space (skip_exponent (skip_fraction r))) \<or>
         map upper t \<in> set [''INF'', ''+INF'', ''-INF'', ''INFINITY'', ''+INFINITY'', ''-INFINITY''])"

definition is_bool_token :: "string \<Rightarrow> bool" where
  "is_bool_token t = (map upper t = ''TRUE'' \<or> map upper t = ''FALSE'')"

subsection \<open>The type of a column\<close>

text \<open>
  The parser settles the type of every column from all of its fields, trying integers
  first, then floating-point numbers, then booleans, and otherwise keeping the fields as
  strings. Missing values turn an integer column into a floating-point column. The
  value of a floating-point cell is named by the field that denotes it. A column of
  integer fields of which one does not fit into 64 bits is kept as the strings that
  were read: there even a field that names a missing value stays a string.
\<close>

datatype dtype = Int64 | UInt64 | Float64 | Bool | Object | Object_as_read

datatype pcell = PInt int | PFloat string | PBool bool | PStr string | PNaN

definition infer_dtype :: "string list \<Rightarrow> dtype" where
  "infer_dtype toks =
     (let present = filter (\<lambda>t. \<not> is_na t) toks
      in if toks = [] then Object
         else if list_all is_int_token present then
           (if list_all (\<lambda>t. - (2 ^ 63) \<le> int_value t \<and> int_value t < 2 ^ 63) present
            then (if present = toks then Int64 else Float64)
            else if present = toks \<and> list_all (\<lambda>t. 0 \<le> int_value t \<and> int_value t < 2 ^ 64) toks
            then UInt64
            else Object_as_read)
         else if list_all is_float_token present then Float64
         else if list_all is_bool_token present then Bool
         else Object)"

definition convert :: "dtype \<Rightarrow> string \<Rightarrow> pcell" where
  "convert d t =
     (case d of
        Int64 \<Rightarrow> PInt (int_value t)
      | UInt64 \<Rightarrow> PInt (int_value t)
      | Float64 \<Rightarrow> if is_na t then PNaN else PFloat t
      | Bool \<Rightarrow> if is_na t then PNaN else PBool (map upper t = ''TRUE'')
      | Object \<Rightarrow> if is_na t then PNaN else PStr t
      | Object_as_read \<Rightarrow> PStr t)"

subsection \<open>The table that is read\<close>

text \<open>
  The first record names the columns; an empty name becomes \<^verbatim>\<open>Unnamed: j\<close>. Then the
  names are made distinct, the given names before the \<^verbatim>\<open>Unnamed\<close> ones: a name that was
  seen before gets the suffix \<^verbatim>\<open>.k\<close> with the first \<open>k\<close>, counting from the number of
  times the name was seen, for which no column has the suffixed name. When the first
  data record has more fields than the header, the surplus leading columns become the
  row labels; otherwise the rows are numbered from 0.
\<close>

record parsed =
  pcolumns :: "string list"
  pindex :: "pcell list list"
  prows :: "pcell list list"

fun unnamed :: "nat \<Rightarrow> string list \<Rightarrow> string list" where
  "unnamed j [] = []"
| "unnamed j (n # ns) = (if n = [] then ''Unnamed: '' @ str_nat j else n) # unnamed (Suc j) ns"

definition free_suffix :: "string list \<Rightarrow> string \<Rightarrow> nat \<Rightarrow> nat" where
  "free_suffix names col c =
     (case find (\<lambda>k. col @ ''.'' @ str_nat k \<notin> set names) [c..<c + length names + 1] of
        Some k \<Rightarrow> k
      | None \<Rightarrow> c + length names + 1)"

definition rename_at ::
  "nat \<Rightarrow> string list \<times> (string \<Rightarrow> nat) \<Rightarrow> string list \<times> (string \<Rightarrow> nat)" where
  "rename_at i st =
     (let names = fst st; counts = snd st; col = names ! i
      in if counts col = 0 then (names, counts(col := 1))
         else
           (let k = free_suffix names col (counts col); renamed = col @ ''.'' @ str_nat k
            in (names[i := renamed], counts(col := Suc k, renamed := 1))))"

definition dedup_names :: "string list \<Rightarrow> string list" where
  "dedup_names header =
     (let given = filter (\<lambda>i. header ! i \<noteq> []) [0..<length header];
          missing = filter (\<lambda>i. header ! i = []) [0..<length header]
      in fst (fold rename_at (given @ missing) (unnamed 0 header, \<lambda>name. 0)))"

definition token_at :: "nat \<Rightarrow> string list \<Rightarrow> string" where
  "token_at j r = (case drop j r of [] \<Rightarrow> [] | t # ts \<Rightarrow> t)"

definition frame_of_records :: "string list list \<Rightarrow> exn + parsed" where
  "frame_of_records recs =
     (case recs of
        [] \<Rightarrow> Inl EmptyDataError
      | header # data \<Rightarrow>
          (let width = (case data of [] \<Rightarrow> length header | d # ds \<Rightarrow> length d);
               surplus = width - length header;
               dtypes = map (\<lambda>j. infer_dtype (map (token_at j) data)) [0..<width];
               cells = map (\<lambda>r. map (\<lambda>(d, t). convert d t) (zip dtypes r)) data
           in Inr \<lparr>pcolumns = dedup_names header,
                   pindex = (if surplus = 0 then map (\<lambda>i. [PInt (int i)]) [0..<length data]
                             else map (take surplus) cells),
                   prows = map (drop surplus) cells\<rparr>))"

definition phead :: "parsed \<Rightarrow> parsed" where
  "phead p = p\<lparr>pindex := take 5 (pindex p), prows := take 5 (prows p)\<rparr>"

text \<open>
  \<^verbatim>\<open>pd.read_csv(filename)\<close> infers the compression from the file name: a name that ends in
  \<^verbatim>\<open>.zip\<close> must be an archive, with exactly one member. The bytes of an archive read
  as if they were text do not decode.
\<close>

definition ends_with :: "string \<Rightarrow> string \<Rightarrow> bool" where
  "ends_with suffix s = (drop (length s - length suffix) s = suffix)"

definition parse_csv :: "string \<Rightarrow> exn + parsed" where
  "parse_csv text = (case tokenize text of Inl e \<Rightarrow> Inl e | Inr recs \<Rightarrow> frame_of_records recs)"

definition read_csv :: "string \<Rightarrow> filesystem \<Rightarrow> exn + parsed" where
  "read_csv name fs =
     (case fs name of
        None \<Rightarrow> Inl (FileNotFoundError name)
      | Some (Plain text) \<Rightarrow>
          if ends_with ''.zip'' name then Inl (BadZipFile ''File is not a zip file'')
          else parse_csv text
      | Some (Archive members) \<Rightarrow>
          if ends_with ''.zip'' name then
            (case members of
               [] \<Rightarrow> Inl (ValueError ''Zero files found in ZIP file'')
             | [text] \<Rightarrow> parse_csv text
             | m # n # ms \<Rightarrow> Inl (ValueError ''Multiple files found in ZIP file''))
          else Inl (UnicodeDecodeError name))"

section \<open>The notebook\<close>

text \<open>
  The code cells of the notebook run top to bottom. No cell has a \<^verbatim>\<open>try\<close> statement, so
  the first exception ends the run; \<open>bind\<close> passes it on. The notebook's surroundings
  are the remote session that \<^verbatim>\<open>setup_remote()\<close> returns, with its two operations
  \<^verbatim>\<open>remote.structures.all_structures()\<close> and \<^verbatim>\<open>remote.ligands.all_ligands()\<close> (code of
  the KLIFS client, outside this notebook: each returns a table or raises), the current
  date, and the operating system's answer to the write of the file.
\<close>

definition bind :: "exn + 'a \<Rightarrow> ('a \<Rightarrow> exn + 'b) \<Rightarrow> exn + 'b" where
  "bind m f = (case m of Inl e \<Rightarrow> Inl e | Inr x \<Rightarrow> f x)"

record remote =
  all_structures :: "exn + dataframe"
  all_ligands :: "exn + dataframe"

record env =
  setup_remote :: "exn + remote"
  today :: date
  refusal :: "string \<Rightarrow> exn option"

text \<open>What a cell prints or shows as its value.\<close>

datatype shown =
    Print string
  | Print_shape nat nat
  | Print_sizes "(cell list \<times> nat) list"
  | Print_frame dataframe
  | Show_frame dataframe
  | Show_parsed parsed

text \<open>The notebook's variables, the files and the console.\<close>

record notebook =
  structures_all :: dataframe
  ligands_all :: dataframe
  filename :: string
  files :: filesystem
  console :: "shown list"

definition id_columns :: "string list" where
  "id_columns =
     [''structure.klifs_id'', ''structure.pdb_id'', ''structure.alternate_model'',
      ''structure.chain'', ''kinase.klifs_name'', ''kinase.klifs_id'', ''ligand.expo_id'']"

text \<open>
  Cell 4: fetch all structures, keep the identifier columns, sort by structure ID, print
  the shape and show the first rows.
\<close>

definition fetch_structures :: "remote \<Rightarrow> notebook \<Rightarrow> exn + notebook" where
  "fetch_structures r nb =
     bind (all_structures r) (\<lambda>fetched.
     bind (getitem_columns id_columns fetched) (\<lambda>projected.
     bind (sort_values ''structure.klifs_id'' projected) (\<lambda>sorted_table.
       Inr (nb\<lparr>structures_all := sorted_table,
               console := console nb @
                 [Print_shape (length (rows sorted_table)) (length (columns sorted_table)),
                  Show_frame (head sorted_table)]\<rparr>))))"

text \<open>Cell 5: the sanity check of the structure IDs.\<close>

definition check_structures :: "notebook \<Rightarrow> exn + notebook" where
  "check_structures nb =
     bind (groupby_size [''structure.pdb_id'', ''structure.alternate_model'', ''structure.chain'']
             (structures_all nb)) (\<lambda>sizes.
       Inr (nb\<lparr>console := console nb @
               [Print ''Sanity check: Are there multiple structure KLIFS IDs for one KLIFS structure?'',
                if 0 < length (larger_than_one sizes) then Print_sizes (larger_than_one sizes)
                else Print ''All good!'']\<rparr>))"

text \<open>Cell 6: save the local copy.\<close>

definition save_copy :: "env \<Rightarrow> notebook \<Rightarrow> exn + notebook" where
  "save_copy e nb =
     bind (to_csv (klifs_filename (today e)) None Zip (refusal e) (structures_all nb) (files nb))
       (\<lambda>fs. Inr (nb\<lparr>filename := klifs_filename (today e), files := fs\<rparr>))"

text \<open>Cell 8: load the data again and show the first rows.\<close>

definition load_copy :: "notebook \<Rightarrow> exn + notebook" where
  "load_copy nb =
     bind (read_csv (filename nb) (files nb)) (\<lambda>p.
       Inr (nb\<lparr>console := console nb @ [Show_parsed (phead p)]\<rparr>))"

text \<open>Cell 10: fetch all ligands.\<close>

definition fetch_ligands :: "remote \<Rightarrow> notebook \<Rightarrow> exn + notebook" where
  "fetch_ligands r nb = bind (all_ligands r) (\<lambda>fetched. Inr (nb\<lparr>ligands_all := fetched\<rparr>))"

text \<open>Cell 11: the sanity check of the ligand IDs.\<close>

definition check_ligands :: "notebook \<Rightarrow> exn + notebook" where
  "check_ligands nb =
     bind (groupby_size [''ligand.expo_id''] (ligands_all nb)) (\<lambda>sizes.
       if 0 < length (larger_than_one sizes) then
         bind (rows_where ''ligand.expo_id'' (\<lambda>c. [c] \<in> set (map fst (larger_than_one sizes)))
                 (ligands_all nb)) (\<lambda>ambiguous.
         bind (getitem_columns [''ligand.klifs_id'', ''ligand.expo_id''] ambiguous) (\<lambda>ids.
         bind (sort_values ''ligand.expo_id'' ids) (\<lambda>report.
           Inr (nb\<lparr>console := console nb @
                   [Print ''Sanity check: Are there multiple ligand KLIFS IDs for one ligand PDB?'',
                    Print_frame report,
                    Print ''These PDB IDs need to be check manually!'']\<rparr>))))
       else
         Inr (nb\<lparr>console := console nb @
                 [Print ''Sanity check: Are there multiple ligand KLIFS IDs for one ligand PDB?'',
                  Print ''All good!'']\<rparr>))"

text \<open>Cells 12 and 14: show the structures with a given ligand.\<close>

definition show_ligand :: "string \<Rightarrow> notebook \<Rightarrow> exn + notebook" where
  "show_ligand expo nb =
     bind (rows_where ''ligand.expo_id'' (\<lambda>c. c = StrC expo) (structures_all nb)) (\<lambda>found.
       Inr (nb\<lparr>console := console nb @ [Show_frame found]\<rparr>))"

definition fresh :: "filesystem \<Rightarrow> notebook" where
  "fresh fs =
     \<lparr>structures_all = \<lparr>columns = [], rows = []\<rparr>, ligands_all = \<lparr>columns = [], rows = []\<rparr>,
      filename = [], files = fs, console = []\<rparr>"

definition run_notebook :: "env \<Rightarrow> filesystem \<Rightarrow> exn + notebook" where
  "run_notebook e fs =
     bind (setup_remote e) (\<lambda>r.
     bind (fetch_structures r (fresh fs)) (\<lambda>nb1.
     bind (check_structures nb1) (\<lambda>nb2.
     bind (save_copy e nb2) (\<lambda>nb3.
     bind (load_copy nb3) (\<lambda>nb4.
     bind (fetch_ligands r nb4) (\<lambda>nb5.
     bind (check_ligands nb5) (\<lambda>nb6.
     bind (show_ligand ''6VL'' nb6) (\<lambda>nb7.
       show_ligand ''7KC'' nb7))))))))"

section \<open>Example data\<close>

text \<open>
  The first five rows that the notebook shows for the sorted table, with their row
  labels, and the records that the file holds for them.
\<close>

definition seeded_rows :: "(int \<times> cell list) list" where
  "seeded_rows =
     [(7670, [IntC 1, StrC ''3dko'', StrC ''A'', StrC ''A'', StrC ''EphA7'', IntC 415, StrC ''IHZ'']),
      (7673, [IntC 2, StrC ''2rei'', StrC ''B'', StrC ''A'', StrC ''EphA7'', IntC 415, StrC ''-'']),
      (7672, [IntC 3, StrC ''3dko'', StrC ''B'', StrC ''A'', StrC ''EphA7'', IntC 415, StrC ''IHZ'']),
      (7671, [IntC 4, StrC ''2rei'', StrC ''A'', StrC ''A'', StrC ''EphA7'', IntC 415, StrC ''-'']),
      (9567, [IntC 5, StrC ''3v8t'', StrC ''B'', StrC ''A'', StrC ''ITK'', IntC 474, StrC ''477''])]"

definition seeded_records :: "string list list" where
  "seeded_records =
     [[''1'', ''3dko'', ''A'', ''A'', ''EphA7'', ''415'', ''IHZ''],
      [''2'', ''2rei'', ''B'', ''A'', ''EphA7'', ''415'', ''-''],
      [''3'', ''3dko'', ''B'', ''A'', ''EphA7'', ''415'', ''IHZ''],
      [''4'', ''2rei'', ''A'', ''A'', ''EphA7'', ''415'', ''-''],
      [''5'', ''3v8t'', ''B'', ''A'', ''ITK'', ''474'', ''477'']]"

text \<open>A table for the scenario: the five rows out of order, among them one more row.\<close>

definition scenario_table :: dataframe where
  "scenario_table =
     \<lparr>columns = id_columns,
      rows =
        [(9567, [IntC 5, StrC ''3v8t'', StrC ''B'', StrC ''A'', StrC ''ITK'', IntC 474, StrC ''477'']),
         (4236, [IntC 9564, StrC ''5t31'', StrC ''-'', StrC ''B'', StrC ''GSK3B'', IntC 238, StrC ''6VL'']),
         (7671, [IntC 4, StrC ''2rei'', StrC ''A'', StrC ''A'', StrC ''EphA7'', IntC 415, StrC ''-'']),
         (7670, [IntC 1, StrC ''3dko'', StrC ''A'', StrC ''A'', StrC ''EphA7'', IntC 415, StrC ''IHZ'']),
         (7672, [IntC 3, StrC ''3dko'', StrC ''B'', StrC ''A'', StrC ''EphA7'', IntC 415, StrC ''IHZ'']),
         (7673, [IntC 2, StrC ''2rei'', StrC ''B'', StrC ''A'', StrC ''EphA7'', IntC 415, StrC ''-''])]\<rparr>"

definition scenario_rest :: "(int \<times> cell list) list" where
  "scenario_rest =
     [(4236, [IntC 9564, StrC ''5t31'', StrC ''-'', StrC ''B'', StrC ''GSK3B'', IntC 238, StrC ''6VL''])]"

text \<open>
  A small run of the whole notebook: a fetched structures table with one column more
  than the notebook keeps and its rows out of order, a ligands table in which two
  ligands share the Expo ID 6VL, and the date 2020-11-10.
\<close>

definition demo_structures :: dataframe where
  "demo_structures =
     \<lparr>columns = [''structure.pdb_id'', ''structure.klifs_id'', ''structure.alternate_model'',
                 ''structure.chain'', ''species.klifs'', ''kinase.klifs_name'', ''kinase.klifs_id'',
                 ''ligand.expo_id''],
      rows =
        [(7673, [StrC ''2rei'', IntC 2, StrC ''B'', StrC ''A'', StrC ''Human'', StrC ''EphA7'',
                 IntC 415, StrC ''-'']),
         (7670, [StrC ''3dko'', IntC 1, StrC ''A'', StrC ''A'', StrC ''Human'', StrC ''EphA7'',
                 IntC 415, StrC ''IHZ''])]\<rparr>"

definition demo_ligands :: dataframe where
  "demo_ligands =
     \<lparr>columns = [''ligand.klifs_id'', ''ligand.expo_id'', ''ligand.name''],
      rows =
        [(2713, [IntC 3015, StrC ''6VL'', StrC ''first'']),
         (64, [IntC 65, StrC ''7KC'', StrC ''second'']),
         (2759, [IntC 3065, StrC ''6VL'', StrC ''third''])]\<rparr>"

definition demo_remote :: remote where
  "demo_remote = \<lparr>all_structures = Inr demo_structures, all_ligands = Inr demo_ligands\<rparr>"

definition demo_env :: env where
  "demo_env =
     \<lparr>setup_remote = Inr demo_remote,
      today = \<lparr>year = 2020, month = 11, day = 10\<rparr>,
      refusal = (\<lambda>name. None)\<rparr>"

definition demo_final :: notebook where
  "demo_final = projr (run_notebook demo_env Map.empty)"


text \<open>The header record as it stands in the file.\<close>

definition header_line :: string where
  "header_line = ''structure.klifs_id,structure.pdb_id,structure.alternate_model,structure.chain,kinase.klifs_name,kinase.klifs_id,ligand.expo_id\<newline>''"





text \<open>
  Tables for the duplicate checks: one with a synthetic duplicate (two structure IDs
  for the structure 3dko, model A, chain A), the table of the five seeded rows, and the
  report that the ligand check prints for the ligands of the small run.
\<close>

definition duplicate_table :: dataframe where
  "duplicate_table =
     \<lparr>columns = id_columns,
      rows =
        [(7670, [IntC 1, StrC ''3dko'', StrC ''A'', StrC ''A'', StrC ''EphA7'', IntC 415, StrC ''IHZ'']),
         (7673, [IntC 2, StrC ''2rei'', StrC ''B'', StrC ''A'', StrC ''EphA7'', IntC 415, StrC ''-'']),
         (7680, [IntC 9, StrC ''3dko'', StrC ''A'', StrC ''A'', StrC ''EphA7'', IntC 415, StrC ''IHZ''])]\<rparr>"

definition seeded_table :: dataframe where
  "seeded_table = \<lparr>columns = id_columns, rows = seeded_rows\<rparr>"


definition ligand_report_6VL :: dataframe where
  "ligand_report_6VL =
     \<lparr>columns = [''ligand.klifs_id'', ''ligand.expo_id''],
      rows = [(2713, [IntC 3015, StrC ''6VL'']), (2759, [IntC 3065, StrC ''6VL''])]\<rparr>"

text \<open>The five seeded rows as lines of the file, and a notebook that is about to save them.\<close>

definition seeded_lines :: string where
  "seeded_lines = ''1,3dko,A,A,EphA7,415,IHZ\<newline>2,2rei,B,A,EphA7,415,-\<newline>3,3dko,B,A,EphA7,415,IHZ\<newline>4,2rei,A,A,EphA7,415,-\<newline>5,3v8t,B,A,ITK,474,477\<newline>''"

definition seeded_notebook :: notebook where
  "seeded_notebook = (fresh Map.empty)\<lparr>structures_all := seeded_table\<rparr>"

definition seeded_saved :: notebook where
  "seeded_saved =
     seeded_notebook
       \<lparr>filename := ''klifs_ids.20201110.csv.zip'',
        files := [''klifs_ids.20201110.csv.zip'' \<mapsto> Archive [header_line @ seeded_lines]]\<rparr>"

section \<open>Facts about sorting and projection\<close>

subsection \<open>Sorted lists\<close>

lemma sorted_split_filter:
  fixes f :: "'a \<Rightarrow> 'k::linorder"
  assumes "sorted (map f ys)"
    and "\<And>a b. a \<in> set ys \<Longrightarrow> b \<in> set ys \<Longrightarrow> P a \<Longrightarrow> \<not> P b \<Longrightarrow> f a < f b"
  shows "ys = filter P ys @ filter (\<lambda>y. \<not> P y) ys"
  using assms
proof (induction ys)
  case Nil
  then show ?case by simp
next
  case (Cons y ys)
  have ih: "ys = filter P ys @ filter (\<lambda>y. \<not> P y) ys"
    using Cons by simp
  show ?case
  proof (cases "P y")
    case True
    then show ?thesis using ih by simp
  next
    case False
    have "filter P ys = []"
    proof (rule ccontr)
      assume "filter P ys \<noteq> []"
      then obtain a where a: "a \<in> set ys" "P a"
        by (metis filter_False)
      then have "f a < f y" using Cons.prems(2) [of a y] False by simp
      moreover have "f y \<le> f a" using Cons.prems(1) a by auto
      ultimately show False by simp
    qed
    then show ?thesis using False ih by simp
  qed
qed

lemma sorted_prefix_unique:
  fixes f :: "'a \<Rightarrow> 'k::linorder"
  assumes srt: "sorted (map f ys)"
    and ms: "mset ys = mset xs + mset rest"
    and sx: "sorted (map f xs)"
    and dx: "distinct (map f xs)"
    and lt: "\<And>x z. x \<in> set xs \<Longrightarrow> z \<in> set rest \<Longrightarrow> f x < f z"
  shows "take (length xs) ys = xs"
proof -
  define P where "P y = (f y \<in> f ` set xs)" for y
  have set_ys: "set ys = set xs \<union> set rest"
    using ms by (metis set_mset_mset set_mset_union)
  have restP: "\<not> P z" if "z \<in> set rest" for z
  proof
    assume "P z"
    then obtain x where "x \<in> set xs" "f z = f x" by (auto simp: P_def)
    then show False using lt [of x z] that by simp
  qed
  have xsP: "P x" if "x \<in> set xs" for x
    using that by (simp add: P_def)
  have split: "ys = filter P ys @ filter (\<lambda>y. \<not> P y) ys"
  proof (rule sorted_split_filter [OF srt])
    fix a b assume "a \<in> set ys" "b \<in> set ys" "P a" "\<not> P b"
    then have "b \<in> set rest" using set_ys xsP by auto
    moreover obtain x where "x \<in> set xs" "f a = f x" using \<open>P a\<close> by (auto simp: P_def)
    ultimately show "f a < f b" using lt [of x b] by simp
  qed
  let ?zs = "filter P ys"
  have "mset ?zs = filter_mset P (mset ys)" by simp
  also have "\<dots> = filter_mset P (mset xs) + filter_mset P (mset rest)"
    by (simp add: ms)
  also have "filter_mset P (mset xs) = mset xs"
    using xsP by (metis filter_mset_cong0 filter_mset_True set_mset_mset)
  also have "filter_mset P (mset rest) = {#}"
    using restP by simp
  finally have mz: "mset ?zs = mset xs" by simp
  have "sorted (map f ?zs)" using srt by (rule sorted_filter)
  moreover have "mset (map f ?zs) = mset (map f xs)" using mz by (metis mset_map)
  ultimately have "map f ?zs = map f xs"
    using sx by (metis properties_for_sort sort_key_id_if_sorted list.map_ident)
  moreover have "set ?zs = set xs" using mz by (metis set_mset_mset)
  moreover have "inj_on f (set xs)" using dx by (simp add: distinct_map)
  ultimately have "?zs = xs" by (simp add: inj_on_map_eq_map)
  then have "ys = xs @ filter (\<lambda>y. \<not> P y) ys" using split by simp
  then show ?thesis by (metis append_eq_conv_conj)
qed

lemma seeded_keys:
  "map (\<lambda>(l, r). cell_of id_columns r ''structure.klifs_id'') seeded_rows =
     [IntC 1, IntC 2, IntC 3, IntC 4, IntC 5]"
  by (simp add: seeded_rows_def id_columns_def cell_of_def)

lemma sort_values_Inr:
  assumes "sort_values by df = Inr df'"
  shows "columns df' = columns df"
    and "rows df' = sort_key (\<lambda>(l, r). cell_of (columns df) r by) (rows df)"
  using assms
  by (auto simp: sort_values_def Let_def split: list.splits if_splits)

lemma cell_less_IntC [simp]: "(IntC a < IntC b) = (a < b)"
  by (auto simp: less_cell_def)

subsection \<open>The column projection\<close>

lemma filter_zip_absent:
  "w \<notin> set cols \<Longrightarrow> filter (\<lambda>(n, v). n = w) (zip cols vals) = []"
  by (auto simp: filter_empty_conv dest: set_zip_leftD)

lemma filter_zip_distinct:
  "distinct cols \<Longrightarrow> length vals = length cols \<Longrightarrow> w \<in> set cols \<Longrightarrow>
   \<exists>v. map_of (zip cols vals) w = Some v \<and>
       map snd (filter (\<lambda>(n, v). n = w) (zip cols vals)) = [v]"
proof (induction cols arbitrary: vals)
  case Nil
  then show ?case by simp
next
  case (Cons c cs)
  then obtain v vs where vals: "vals = v # vs" by (cases vals) auto
  show ?case
  proof (cases "c = w")
    case True
    then have "w \<notin> set cs" using Cons.prems by auto
    then show ?thesis using True vals by (simp add: filter_zip_absent)
  next
    case False
    then show ?thesis using Cons vals by auto
  qed
qed

lemma select_Cons:
  "select (w # ws) cols vals =
     map snd (filter (\<lambda>(n, v). n = w) (zip cols vals)) @ select ws cols vals"
  by (simp add: select_def)

lemma select_distinct:
  assumes "distinct cols" "length vals = length cols"
  shows "set wanted \<subseteq> set cols \<Longrightarrow>
         select wanted cols vals = map (\<lambda>w. the (map_of (zip cols vals) w)) wanted"
proof (induction wanted)
  case Nil
  then show ?case by (simp add: select_def)
next
  case (Cons w ws)
  have "w \<in> set cols" using Cons.prems by simp
  then have "\<exists>v. map_of (zip cols vals) w = Some v \<and>
               map snd (filter (\<lambda>(n, v). n = w) (zip cols vals)) = [v]"
    by (rule filter_zip_distinct [OF assms])
  then have "map snd (filter (\<lambda>(n, v). n = w) (zip cols vals)) = [the (map_of (zip cols vals) w)]"
    by (elim exE conjE) simp
  then show ?case using Cons by (simp add: select_Cons)
qed

lemma map_of_zip_self: "w \<in> set cols \<Longrightarrow> map_of (zip cols cols) w = Some w"
  by (induction cols) auto

lemma select_names:
  assumes "distinct cols" "set wanted \<subseteq> set cols"
  shows "select wanted cols cols = wanted"
proof -
  have "map (\<lambda>w. the (map_of (zip cols cols) w)) wanted = map (\<lambda>w. w) wanted"
    using assms(2) by (intro map_cong) (auto simp: map_of_zip_self)
  then show ?thesis using select_distinct [OF assms(1) _ assms(2), of cols] by simp
qed

lemma cell_of_select:
  assumes "distinct cols" "length vals = length cols" "set wanted \<subseteq> set cols"
    and "name \<in> set wanted"
  shows "cell_of wanted (select wanted cols vals) name = cell_of cols vals name"
proof -
  obtain v where v: "map_of (zip cols vals) name = Some v"
    using filter_zip_distinct [OF assms(1,2), of name] assms(3,4) by auto
  have "map_of (zip wanted (map (\<lambda>w. the (map_of (zip cols vals) w)) wanted)) name =
          Some (the (map_of (zip cols vals) name))"
    using assms(4) by (simp add: map_of_zip_map)
  then show ?thesis
    using v by (simp add: cell_of_def select_distinct [OF assms(1-3)])
qed

lemma id_columns_distinct: "distinct id_columns"
  by (simp add: id_columns_def)

lemma sort_values_mset:
  assumes "sort_values by df = Inr df'"
  shows "mset (rows df') = mset (rows df)"
  using assms by (auto simp: sort_values_def Let_def split: list.splits if_splits)

lemma sort_values_columns:
  assumes "sort_values by df = Inr df'"
  shows "columns df' = columns df"
  using assms by (auto simp: sort_values_def Let_def split: list.splits if_splits)

lemma write_row_id_columns: "write_row id_columns = header_line"
  by (simp add: write_row_def id_columns_def quote_field_def needs_quotes_def header_line_def
      comma_def dquote_def LF_def)

section \<open>Facts about numerals\<close>

lemma of_char_digit_char: "d < 10 \<Longrightarrow> (of_char (digit_char d) :: nat) = 48 + d"
  by (simp add: digit_char_def)

lemma is_digit_digit_char: "d < 10 \<Longrightarrow> is_digit (digit_char d)"
  by (simp add: is_digit_def of_char_digit_char)

lemma str_nat_digits: "list_all is_digit (str_nat n)"
proof (induction n rule: str_nat.induct)
  case (1 n)
  show ?case
  proof (cases "n < 10")
    case True
    then show ?thesis by (subst str_nat.simps) (simp add: is_digit_digit_char)
  next
    case False
    then show ?thesis using 1 by (subst str_nat.simps) (simp add: is_digit_digit_char)
  qed
qed

lemma digit_not_special:
  "is_digit c \<Longrightarrow> c \<noteq> comma \<and> c \<noteq> dquote \<and> c \<noteq> LF \<and> c \<noteq> CR \<and> c \<noteq> CHR 0x00 \<and> \<not> is_space c"
  by (auto simp: is_digit_def comma_def dquote_def LF_def CR_def is_space_def)

lemma str_nat_not_Nil: "str_nat n \<noteq> []"
  by (subst str_nat.simps) simp

lemma str_int_chars:
  "c \<in> set (str_int i) \<Longrightarrow> is_digit c \<or> c = CHR ''-''"
  using str_nat_digits by (auto simp: str_int_def list_all_iff split: if_splits)

section \<open>The steps of a run\<close>

lemma bind_Inr_iff: "(bind m f = Inr y) = (\<exists>x. m = Inr x \<and> f x = Inr y)"
  by (cases m) (simp_all add: bind_def)

lemma bind_Inl: "bind (Inl e) f = Inl e"
  by (simp add: bind_def)

lemma bind_Inr: "bind (Inr x) f = f x"
  by (simp add: bind_def)

lemma getitem_columns_Inr:
  assumes "getitem_columns wanted df = Inr df'"
  shows "set wanted \<subseteq> set (columns df)"
    and "columns df' = select wanted (columns df) (columns df)"
    and "rows df' = map (\<lambda>(l, r). (l, select wanted (columns df) r)) (rows df)"
  using assms
  by (auto simp: getitem_columns_def filter_empty_conv split: list.splits)

lemma fetch_structures_Inr:
  assumes "fetch_structures r nb = Inr nb1"
  shows "\<exists>fetched projected.
           all_structures r = Inr fetched \<and>
           getitem_columns id_columns fetched = Inr projected \<and>
           sort_values ''structure.klifs_id'' projected = Inr (structures_all nb1) \<and>
           ligands_all nb1 = ligands_all nb \<and> filename nb1 = filename nb \<and> files nb1 = files nb"
  using assms by (auto simp: fetch_structures_def bind_Inr_iff)

lemma check_structures_Inr:
  assumes "check_structures nb = Inr nb'"
  shows "structures_all nb' = structures_all nb" "ligands_all nb' = ligands_all nb"
    "filename nb' = filename nb" "files nb' = files nb"
  using assms by (auto simp: check_structures_def bind_Inr_iff)

lemma save_copy_Inr:
  assumes "save_copy e nb = Inr nb'"
  shows "structures_all nb' = structures_all nb" "ligands_all nb' = ligands_all nb"
    "filename nb' = klifs_filename (today e)"
    "files nb' = (files nb)(klifs_filename (today e) \<mapsto> Archive [csv_text None (structures_all nb)])"
    "refusal e (klifs_filename (today e)) = None"
    "console nb' = console nb"
  using assms by (auto simp: save_copy_def to_csv_def bind_Inr_iff split: option.splits)

lemma load_copy_Inr:
  assumes "load_copy nb = Inr nb'"
  shows "structures_all nb' = structures_all nb" "ligands_all nb' = ligands_all nb"
    "filename nb' = filename nb" "files nb' = files nb"
  using assms by (auto simp: load_copy_def bind_Inr_iff)

lemma fetch_ligands_Inr:
  assumes "fetch_ligands r nb = Inr nb'"
  shows "structures_all nb' = structures_all nb" "all_ligands r = Inr (ligands_all nb')"
    "filename nb' = filename nb" "files nb' = files nb" "console nb' = console nb"
  using assms by (auto simp: fetch_ligands_def bind_Inr_iff)

lemma check_ligands_Inr:
  assumes "check_ligands nb = Inr nb'"
  shows "structures_all nb' = structures_all nb" "ligands_all nb' = ligands_all nb"
    "filename nb' = filename nb" "files nb' = files nb"
  using assms by (auto simp: check_ligands_def bind_Inr_iff split: if_splits)

lemma show_ligand_Inr:
  assumes "show_ligand x nb = Inr nb'"
  shows "structures_all nb' = structures_all nb" "ligands_all nb' = ligands_all nb"
    "filename nb' = filename nb" "files nb' = files nb"
  using assms by (auto simp: show_ligand_def bind_Inr_iff)

lemma run_notebook_Inr:
  assumes "run_notebook e fs = Inr final"
  shows "\<exists>r nb1 nb2 nb3 nb4 nb5 nb6 nb7.
           setup_remote e = Inr r \<and> fetch_structures r (fresh fs) = Inr nb1 \<and>
           check_structures nb1 = Inr nb2 \<and> save_copy e nb2 = Inr nb3 \<and>
           load_copy nb3 = Inr nb4 \<and> fetch_ligands r nb4 = Inr nb5 \<and>
           check_ligands nb5 = Inr nb6 \<and> show_ligand ''6VL'' nb6 = Inr nb7 \<and>
           show_ligand ''7KC'' nb7 = Inr final"
  using assms unfolding run_notebook_def bind_Inr_iff by blast

lemma run_notebook_summary:
  assumes "run_notebook e fs = Inr final"
  shows "\<exists>r fetched projected.
           setup_remote e = Inr r \<and> all_structures r = Inr fetched \<and>
           getitem_columns id_columns fetched = Inr projected \<and>
           sort_values ''structure.klifs_id'' projected = Inr (structures_all final) \<and>
           filename final = klifs_filename (today e) \<and>
           files final = fs(klifs_filename (today e) \<mapsto> Archive [csv_text None (structures_all final)])"
proof -
  obtain r nb1 nb2 nb3 nb4 nb5 nb6 nb7 where
    s: "setup_remote e = Inr r" and c4: "fetch_structures r (fresh fs) = Inr nb1" and
    c5: "check_structures nb1 = Inr nb2" and c6: "save_copy e nb2 = Inr nb3" and
    c8: "load_copy nb3 = Inr nb4" and c10: "fetch_ligands r nb4 = Inr nb5" and
    c11: "check_ligands nb5 = Inr nb6" and c12: "show_ligand ''6VL'' nb6 = Inr nb7" and
    c14: "show_ligand ''7KC'' nb7 = Inr final"
    using run_notebook_Inr [OF assms] by blast
  obtain fetched projected where
    f: "all_structures r = Inr fetched" "getitem_columns id_columns fetched = Inr projected"
       "sort_values ''structure.klifs_id'' projected = Inr (structures_all nb1)"
       "files nb1 = files (fresh fs)"
    using fetch_structures_Inr [OF c4] by blast
  have t: "structures_all final = structures_all nb1"
    using check_structures_Inr(1) [OF c5] save_copy_Inr(1) [OF c6] load_copy_Inr(1) [OF c8]
      fetch_ligands_Inr(1) [OF c10] check_ligands_Inr(1) [OF c11] show_ligand_Inr(1) [OF c12]
      show_ligand_Inr(1) [OF c14] by simp
  have n: "filename final = klifs_filename (today e)"
    using save_copy_Inr(3) [OF c6] load_copy_Inr(3) [OF c8]
      fetch_ligands_Inr(3) [OF c10] check_ligands_Inr(3) [OF c11] show_ligand_Inr(3) [OF c12]
      show_ligand_Inr(3) [OF c14] by simp
  have "files final = files nb3"
    using load_copy_Inr(4) [OF c8]
      fetch_ligands_Inr(4) [OF c10] check_ligands_Inr(4) [OF c11] show_ligand_Inr(4) [OF c12]
      show_ligand_Inr(4) [OF c14] by simp
  also have "\<dots> = (files nb2)(klifs_filename (today e) \<mapsto> Archive [csv_text None (structures_all nb2)])"
    using save_copy_Inr(4) [OF c6] .
  also have "files nb2 = fs"
    using check_structures_Inr(4) [OF c5] f(4) by (simp add: fresh_def)
  also have "structures_all nb2 = structures_all final"
    using check_structures_Inr(1) [OF c5] t by simp
  finally have w: "files final = fs(klifs_filename (today e) \<mapsto> Archive [csv_text None (structures_all final)])" .
  show ?thesis using s f t n w by auto
qed

lemma demo_isr: "\<not> isl (run_notebook demo_env Map.empty)"
  by code_simp

lemma demo_setup: "setup_remote demo_env = Inr demo_remote"
  by (simp add: demo_env_def)

lemma demo_all_structures: "all_structures demo_remote = Inr demo_structures"
  by (simp add: demo_remote_def)

lemma demo_all_ligands: "all_ligands demo_remote = Inr demo_ligands"
  by (simp add: demo_remote_def)

lemma demo_distinct: "distinct (columns demo_structures)"
  by (simp add: demo_structures_def)

lemma demo_rectangular: "rectangular demo_structures"
  by (simp add: demo_structures_def rectangular_def)

lemma demo_run: "run_notebook demo_env Map.empty = Inr demo_final"
  using demo_isr by (simp add: demo_final_def)

section \<open>Records are not changed\<close>

lemma sort_values_set:
  assumes "sort_values by df = Inr df'"
  shows "set (rows df') = set (rows df)"
  using sort_values_mset [OF assms] by (metis set_mset_mset)

lemma projected_rows_as_fetched:
  assumes p: "getitem_columns id_columns fetched = Inr projected"
    and s: "sort_values ''structure.klifs_id'' projected = Inr t"
    and rect: "rectangular fetched" and dist: "distinct (columns fetched)"
  shows "columns t = id_columns \<and>
         (\<forall>(l, row) \<in> set (rows t). \<exists>row0. (l, row0) \<in> set (rows fetched) \<and>
            (\<forall>name \<in> set id_columns. cell_of id_columns row name = cell_of (columns fetched) row0 name))"
proof (intro conjI ballI)
  have sub: "set id_columns \<subseteq> set (columns fetched)"
    using getitem_columns_Inr(1) [OF p] .
  show c: "columns t = id_columns"
    using sort_values_columns [OF s] getitem_columns_Inr(2) [OF p] sub dist
    by (simp add: select_names)
  fix x assume "x \<in> set (rows t)"
  then have "x \<in> set (rows projected)" using sort_values_set [OF s] by simp
  then obtain l row0 where x: "x = (l, select id_columns (columns fetched) row0)"
    and m: "(l, row0) \<in> set (rows fetched)"
    using getitem_columns_Inr(3) [OF p] by auto
  have len: "length row0 = length (columns fetched)"
    using rect m by (auto simp: rectangular_def list_all_iff)
  have "\<forall>name \<in> set id_columns.
          cell_of id_columns (select id_columns (columns fetched) row0) name =
          cell_of (columns fetched) row0 name"
    using cell_of_select [OF dist len sub] by blast
  then show "case x of (l, row) \<Rightarrow> \<exists>row0. (l, row0) \<in> set (rows fetched) \<and>
            (\<forall>name \<in> set id_columns. cell_of id_columns row name = cell_of (columns fetched) row0 name)"
    using x m by auto
qed

text \<open>
  Claim C9. In a run of the notebook, after every step the table \<^verbatim>\<open>structures_all\<close> has
  the seven identifier columns, and every row of it is a fetched row: it carries the
  label of a row of the fetched table and, in each of the seven columns, that row's
  value as fetched. The ligands table stays as fetched. The states \<open>nb1\<close> to \<open>nb7\<close> are
  the notebook after the cells 4, 5, 6, 8, 10, 11 and 12; \<open>final\<close> is the notebook after
  cell 14.
\<close>

theorem records_read_only:
  assumes "run_notebook e fs = Inr final"
    and "setup_remote e = Inr r" and "all_structures r = Inr fetched"
    and "all_ligands r = Inr ligands"
    and "rectangular fetched" and "distinct (columns fetched)"
  shows "\<exists>nb1 nb2 nb3 nb4 nb5 nb6 nb7.
           fetch_structures r (fresh fs) = Inr nb1 \<and> check_structures nb1 = Inr nb2 \<and>
           save_copy e nb2 = Inr nb3 \<and> load_copy nb3 = Inr nb4 \<and>
           fetch_ligands r nb4 = Inr nb5 \<and> check_ligands nb5 = Inr nb6 \<and>
           show_ligand ''6VL'' nb6 = Inr nb7 \<and> show_ligand ''7KC'' nb7 = Inr final \<and>
           (\<forall>nb \<in> set [nb1, nb2, nb3, nb4, nb5, nb6, nb7, final].
              columns (structures_all nb) = id_columns \<and>
              (\<forall>(l, row) \<in> set (rows (structures_all nb)).
                 \<exists>row0. (l, row0) \<in> set (rows fetched) \<and>
                   (\<forall>name \<in> set id_columns.
                      cell_of id_columns row name = cell_of (columns fetched) row0 name))) \<and>
           (\<forall>nb \<in> set [nb5, nb6, nb7, final]. ligands_all nb = ligands)"
proof -
  obtain r' nb1 nb2 nb3 nb4 nb5 nb6 nb7 where
    s: "setup_remote e = Inr r'" and c4: "fetch_structures r' (fresh fs) = Inr nb1" and
    c5: "check_structures nb1 = Inr nb2" and c6: "save_copy e nb2 = Inr nb3" and
    c8: "load_copy nb3 = Inr nb4" and c10: "fetch_ligands r' nb4 = Inr nb5" and
    c11: "check_ligands nb5 = Inr nb6" and c12: "show_ligand ''6VL'' nb6 = Inr nb7" and
    c14: "show_ligand ''7KC'' nb7 = Inr final"
    using run_notebook_Inr [OF assms(1)] by blast
  have r: "r' = r" using s assms(2) by simp
  obtain fetched' projected where
    f: "all_structures r' = Inr fetched'" "getitem_columns id_columns fetched' = Inr projected"
       "sort_values ''structure.klifs_id'' projected = Inr (structures_all nb1)"
    using fetch_structures_Inr [OF c4] by blast
  have fe: "fetched' = fetched" using f(1) assms(3) r by simp
  let ?P = "\<lambda>t. columns t = id_columns \<and>
         (\<forall>(l, row) \<in> set (rows t). \<exists>row0. (l, row0) \<in> set (rows fetched) \<and>
            (\<forall>name \<in> set id_columns. cell_of id_columns row name = cell_of (columns fetched) row0 name))"
  have p1: "?P (structures_all nb1)"
    using projected_rows_as_fetched [OF f(2,3) [unfolded fe] assms(5,6)] .
  have e2: "structures_all nb2 = structures_all nb1" using check_structures_Inr(1) [OF c5] .
  have e3: "structures_all nb3 = structures_all nb1" using save_copy_Inr(1) [OF c6] e2 by simp
  have e4: "structures_all nb4 = structures_all nb1" using load_copy_Inr(1) [OF c8] e3 by simp
  have e5: "structures_all nb5 = structures_all nb1" using fetch_ligands_Inr(1) [OF c10] e4 by simp
  have e6: "structures_all nb6 = structures_all nb1" using check_ligands_Inr(1) [OF c11] e5 by simp
  have e7: "structures_all nb7 = structures_all nb1" using show_ligand_Inr(1) [OF c12] e6 by simp
  have e8: "structures_all final = structures_all nb1" using show_ligand_Inr(1) [OF c14] e7 by simp
  have l5: "ligands_all nb5 = ligands" using fetch_ligands_Inr(2) [OF c10] assms(4) r by simp
  have l6: "ligands_all nb6 = ligands" using check_ligands_Inr(2) [OF c11] l5 by simp
  have l7: "ligands_all nb7 = ligands" using show_ligand_Inr(2) [OF c12] l6 by simp
  have l8: "ligands_all final = ligands" using show_ligand_Inr(2) [OF c14] l7 by simp
  have all: "\<forall>nb \<in> set [nb1, nb2, nb3, nb4, nb5, nb6, nb7, final]. ?P (structures_all nb)"
    using p1 by (simp add: e2 e3 e4 e5 e6 e7 e8)
  have lig: "\<forall>nb \<in> set [nb5, nb6, nb7, final]. ligands_all nb = ligands"
    by (simp add: l5 l6 l7 l8)
  show ?thesis
    using c4 c5 c6 c8 c10 c11 c12 c14 all lig unfolding r by blast
qed

theorem records_read_only_witness:
  "run_notebook demo_env Map.empty = Inr demo_final \<and>
   rectangular demo_structures \<and> distinct (columns demo_structures) \<and>
   (\<exists>nb1 nb2 nb3 nb4 nb5 nb6 nb7.
           fetch_structures demo_remote (fresh Map.empty) = Inr nb1 \<and> check_structures nb1 = Inr nb2 \<and>
           save_copy demo_env nb2 = Inr nb3 \<and> load_copy nb3 = Inr nb4 \<and>
           fetch_ligands demo_remote nb4 = Inr nb5 \<and> check_ligands nb5 = Inr nb6 \<and>
           show_ligand ''6VL'' nb6 = Inr nb7 \<and> show_ligand ''7KC'' nb7 = Inr demo_final \<and>
           (\<forall>nb \<in> set [nb1, nb2, nb3, nb4, nb5, nb6, nb7, demo_final].
              columns (structures_all nb) = id_columns \<and>
              (\<forall>(l, row) \<in> set (rows (structures_all nb)).
                 \<exists>row0. (l, row0) \<in> set (rows demo_structures) \<and>
                   (\<forall>name \<in> set id_columns.
                      cell_of id_columns row name = cell_of (columns demo_structures) row0 name))) \<and>
           (\<forall>nb \<in> set [nb5, nb6, nb7, demo_final]. ligands_all nb = demo_ligands))"
  by (rule conjI [OF demo_run conjI [OF demo_rectangular conjI [OF demo_distinct
        records_read_only [OF demo_run demo_setup demo_all_structures demo_all_ligands
          demo_rectangular demo_distinct]]]])

text \<open>
  Claim C10. In a run of the notebook the sort step keeps the multiset of the projected
  rows, and the two duplicate checks leave the tables as they are; so the table that
  the persistence step writes holds exactly the projected rows of the fetched table,
  each as often as it was fetched.
\<close>

theorem rows_preserved:
  assumes "run_notebook e fs = Inr final"
    and "setup_remote e = Inr r" and "all_structures r = Inr fetched"
  shows "\<exists>projected nb1 nb2 nb5 nb6.
           getitem_columns id_columns fetched = Inr projected \<and>
           rows projected = map (\<lambda>(l, row). (l, select id_columns (columns fetched) row)) (rows fetched) \<and>
           fetch_structures r (fresh fs) = Inr nb1 \<and>
           mset (rows (structures_all nb1)) = mset (rows projected) \<and>
           check_structures nb1 = Inr nb2 \<and> structures_all nb2 = structures_all nb1 \<and>
           structures_all nb5 = structures_all nb2 \<and>
           check_ligands nb5 = Inr nb6 \<and> structures_all nb6 = structures_all nb5 \<and>
           ligands_all nb6 = ligands_all nb5 \<and>
           structures_all final = structures_all nb6 \<and>
           files final (filename final) = Some (Archive [csv_text None (structures_all final)]) \<and>
           mset (rows (structures_all final)) =
             mset (map (\<lambda>(l, row). (l, select id_columns (columns fetched) row)) (rows fetched))"
proof -
  obtain r' nb1 nb2 nb3 nb4 nb5 nb6 nb7 where
    s: "setup_remote e = Inr r'" and c4: "fetch_structures r' (fresh fs) = Inr nb1" and
    c5: "check_structures nb1 = Inr nb2" and c6: "save_copy e nb2 = Inr nb3" and
    c8: "load_copy nb3 = Inr nb4" and c10: "fetch_ligands r' nb4 = Inr nb5" and
    c11: "check_ligands nb5 = Inr nb6" and c12: "show_ligand ''6VL'' nb6 = Inr nb7" and
    c14: "show_ligand ''7KC'' nb7 = Inr final"
    using run_notebook_Inr [OF assms(1)] by blast
  have r: "r' = r" using s assms(2) by simp
  obtain fetched' projected where
    f: "all_structures r' = Inr fetched'" "getitem_columns id_columns fetched' = Inr projected"
       "sort_values ''structure.klifs_id'' projected = Inr (structures_all nb1)"
    using fetch_structures_Inr [OF c4] by blast
  have fe: "fetched' = fetched" using f(1) assms(3) r by simp
  have p: "getitem_columns id_columns fetched = Inr projected" using f(2) fe by simp
  have rp: "rows projected = map (\<lambda>(l, row). (l, select id_columns (columns fetched) row)) (rows fetched)"
    using getitem_columns_Inr(3) [OF p] .
  have m1: "mset (rows (structures_all nb1)) = mset (rows projected)"
    using sort_values_mset [OF f(3)] .
  have e2: "structures_all nb2 = structures_all nb1" using check_structures_Inr(1) [OF c5] .
  have e5: "structures_all nb5 = structures_all nb2"
    using save_copy_Inr(1) [OF c6] load_copy_Inr(1) [OF c8] fetch_ligands_Inr(1) [OF c10]
    by simp
  have e6: "structures_all nb6 = structures_all nb5" using check_ligands_Inr(1) [OF c11] .
  have l6: "ligands_all nb6 = ligands_all nb5" using check_ligands_Inr(2) [OF c11] .
  have e8: "structures_all final = structures_all nb6"
    using show_ligand_Inr(1) [OF c12] show_ligand_Inr(1) [OF c14] by simp
  have w: "files final (filename final) = Some (Archive [csv_text None (structures_all final)])"
    using run_notebook_summary [OF assms(1)] by auto
  have m: "mset (rows (structures_all final)) =
             mset (map (\<lambda>(l, row). (l, select id_columns (columns fetched) row)) (rows fetched))"
    using m1 e2 e5 e6 e8 rp by simp
  show ?thesis
    using p rp c4 [unfolded r] m1 c5 e2 e5 c11 e6 l6 e8 w m by blast
qed

theorem rows_preserved_witness:
  "run_notebook demo_env Map.empty = Inr demo_final \<and>
   (\<exists>projected nb1 nb2 nb5 nb6.
           getitem_columns id_columns demo_structures = Inr projected \<and>
           rows projected =
             map (\<lambda>(l, row). (l, select id_columns (columns demo_structures) row)) (rows demo_structures) \<and>
           fetch_structures demo_remote (fresh Map.empty) = Inr nb1 \<and>
           mset (rows (structures_all nb1)) = mset (rows projected) \<and>
           check_structures nb1 = Inr nb2 \<and> structures_all nb2 = structures_all nb1 \<and>
           structures_all nb5 = structures_all nb2 \<and>
           check_ligands nb5 = Inr nb6 \<and> structures_all nb6 = structures_all nb5 \<and>
           ligands_all nb6 = ligands_all nb5 \<and>
           structures_all demo_final = structures_all nb6 \<and>
           files demo_final (filename demo_final) =
             Some (Archive [csv_text None (structures_all demo_final)]) \<and>
           mset (rows (structures_all demo_final)) =
             mset (map (\<lambda>(l, row). (l, select id_columns (columns demo_structures) row))
                    (rows demo_structures)))"
  by (rule conjI [OF demo_run rows_preserved [OF demo_run demo_setup demo_all_structures]])

section \<open>Exceptions\<close>





section \<open>The duplicate checks\<close>

subsection \<open>Structures\<close>

lemma larger_than_one_sizes:
  "set (larger_than_one (map (\<lambda>k. (k, count_list keys k)) (sort (remdups keys)))) =
     {(k, n). k \<in> set keys \<and> n = count_list keys k \<and> 1 < n}"
  by (auto simp: larger_than_one_def)

lemma larger_than_one_distinct:
  "distinct (map fst (larger_than_one (map (\<lambda>k. (k, count_list keys k)) (sort (remdups keys)))))"
proof -
  have "map fst (larger_than_one (map (\<lambda>k. (k, count_list keys k)) (sort (remdups keys)))) =
          filter (\<lambda>k. 1 < count_list keys k) (sort (remdups keys))"
    by (simp add: larger_than_one_def filter_map comp_def)
  then show ?thesis by simp
qed

lemma larger_than_one_empty:
  "(larger_than_one (map (\<lambda>k. (k, count_list keys k)) (sort (remdups keys))) = []) =
     (\<not> list_ex (\<lambda>k. 1 < count_list keys k) keys)"
proof -
  have "(larger_than_one (map (\<lambda>k. (k, count_list keys k)) (sort (remdups keys))) = []) =
        (set (larger_than_one (map (\<lambda>k. (k, count_list keys k)) (sort (remdups keys)))) = {})"
    by simp
  also have "\<dots> = (\<not> list_ex (\<lambda>k. 1 < count_list keys k) keys)"
    unfolding larger_than_one_sizes by (auto simp: list_ex_iff)
  finally show ?thesis .
qed

lemma groupby_size_structures:
  assumes "columns df = id_columns"
  shows "groupby_size [''structure.pdb_id'', ''structure.alternate_model'', ''structure.chain''] df =
           Inr (map (\<lambda>k. (k, count_list (group_keys [''structure.pdb_id'', ''structure.alternate_model'', ''structure.chain''] df) k))
                  (sort (remdups (group_keys [''structure.pdb_id'', ''structure.alternate_model'', ''structure.chain''] df))))"
  by (simp add: groupby_size_def assms id_columns_def)

text \<open>
  Claim C3. The structure check groups the rows of the table by PDB ID, alternate model
  and chain (rows with a missing key cell belong to no group, as in pandas). For every
  table with the identifier columns the check returns without an exception and changes
  nothing but the console, where it prints its headline and then either the groups with
  more than one row, each with its size, when there is such a group, or \<^verbatim>\<open>All good!\<close>
  when there is none.
\<close>

theorem structure_check_reports:
  assumes "columns (structures_all nb) = id_columns"
    and "keys = group_keys [''structure.pdb_id'', ''structure.alternate_model'', ''structure.chain'']
                  (structures_all nb)"
  shows "\<exists>line.
           check_structures nb =
             Inr (nb\<lparr>console := console nb @
                    [Print ''Sanity check: Are there multiple structure KLIFS IDs for one KLIFS structure?'',
                     line]\<rparr>) \<and>
           (if list_ex (\<lambda>k. 1 < count_list keys k) keys
            then \<exists>groups. line = Print_sizes groups \<and> distinct (map fst groups) \<and>
                   set groups = {(k, n). k \<in> set keys \<and> n = count_list keys k \<and> 1 < n}
            else line = Print ''All good!'')"
proof -
  let ?sizes = "map (\<lambda>k. (k, count_list keys k)) (sort (remdups keys))"
  have g: "groupby_size [''structure.pdb_id'', ''structure.alternate_model'', ''structure.chain'']
             (structures_all nb) = Inr ?sizes"
    using groupby_size_structures [OF assms(1)] assms(2) by simp
  let ?line = "if 0 < length (larger_than_one ?sizes) then Print_sizes (larger_than_one ?sizes)
               else Print ''All good!''"
  have c: "check_structures nb =
             Inr (nb\<lparr>console := console nb @
                    [Print ''Sanity check: Are there multiple structure KLIFS IDs for one KLIFS structure?'',
                     ?line]\<rparr>)"
    by (simp add: check_structures_def g bind_def)
  have d: "if list_ex (\<lambda>k. 1 < count_list keys k) keys
           then \<exists>groups. ?line = Print_sizes groups \<and> distinct (map fst groups) \<and>
                   set groups = {(k, n). k \<in> set keys \<and> n = count_list keys k \<and> 1 < n}
           else ?line = Print ''All good!''"
  proof (cases "list_ex (\<lambda>k. 1 < count_list keys k) keys")
    case True
    then have "larger_than_one ?sizes \<noteq> []" by (simp add: larger_than_one_empty)
    then have "?line = Print_sizes (larger_than_one ?sizes)" by simp
    then show ?thesis
      using True larger_than_one_sizes [of keys] larger_than_one_distinct [of keys] by auto
  next
    case False
    then have "larger_than_one ?sizes = []" by (simp add: larger_than_one_empty)
    then show ?thesis using False by simp
  qed
  show ?thesis using c d by blast
qed

lemma duplicate_keys:
  "group_keys [''structure.pdb_id'', ''structure.alternate_model'', ''structure.chain''] duplicate_table =
     [[StrC ''3dko'', StrC ''A'', StrC ''A''], [StrC ''2rei'', StrC ''B'', StrC ''A''],
      [StrC ''3dko'', StrC ''A'', StrC ''A'']]"
  by (simp add: group_keys_def duplicate_table_def id_columns_def cell_of_def)

lemma seeded_group_keys:
  "group_keys [''structure.pdb_id'', ''structure.alternate_model'', ''structure.chain''] seeded_table =
     [[StrC ''3dko'', StrC ''A'', StrC ''A''], [StrC ''2rei'', StrC ''B'', StrC ''A''],
      [StrC ''3dko'', StrC ''B'', StrC ''A''], [StrC ''2rei'', StrC ''A'', StrC ''A''],
      [StrC ''3v8t'', StrC ''B'', StrC ''A'']]"
  by (simp add: group_keys_def seeded_table_def seeded_rows_def id_columns_def cell_of_def)

lemma duplicate_check:
  "check_structures (fresh Map.empty\<lparr>structures_all := duplicate_table\<rparr>) =
     Inr (fresh Map.empty\<lparr>structures_all := duplicate_table,
            console :=
              [Print ''Sanity check: Are there multiple structure KLIFS IDs for one KLIFS structure?'',
               Print_sizes [([StrC ''3dko'', StrC ''A'', StrC ''A''], 2)]]\<rparr>)"
proof -
  have c: "columns duplicate_table = id_columns" by (simp add: duplicate_table_def)
  have s: "sort (remdups [[StrC ''3dko'', StrC ''A'', StrC ''A''], [StrC ''2rei'', StrC ''B'', StrC ''A''],
      [StrC ''3dko'', StrC ''A'', StrC ''A'']]) =
         [[StrC ''2rei'', StrC ''B'', StrC ''A''], [StrC ''3dko'', StrC ''A'', StrC ''A'']]"
    by code_simp
  show ?thesis
    by (simp add: check_structures_def groupby_size_structures [OF c] duplicate_keys s bind_def
        larger_than_one_def fresh_def)
qed

theorem structure_check_reports_witness:
  "columns (structures_all (fresh Map.empty\<lparr>structures_all := duplicate_table\<rparr>)) = id_columns \<and>
   check_structures (fresh Map.empty\<lparr>structures_all := duplicate_table\<rparr>) =
     Inr (fresh Map.empty\<lparr>structures_all := duplicate_table,
            console :=
              [Print ''Sanity check: Are there multiple structure KLIFS IDs for one KLIFS structure?'',
               Print_sizes [([StrC ''3dko'', StrC ''A'', StrC ''A''], 2)]]\<rparr>) \<and>
   columns (structures_all (fresh Map.empty\<lparr>structures_all := seeded_table\<rparr>)) = id_columns \<and>
   check_structures (fresh Map.empty\<lparr>structures_all := seeded_table\<rparr>) =
     Inr (fresh Map.empty\<lparr>structures_all := seeded_table,
            console :=
              [Print ''Sanity check: Are there multiple structure KLIFS IDs for one KLIFS structure?'',
               Print ''All good!'']\<rparr>)"
proof -
  let ?dup = "fresh Map.empty\<lparr>structures_all := duplicate_table\<rparr>"
  let ?ok = "fresh Map.empty\<lparr>structures_all := seeded_table\<rparr>"
  let ?dk = "[[StrC ''3dko'', StrC ''A'', StrC ''A''], [StrC ''2rei'', StrC ''B'', StrC ''A''],
              [StrC ''3dko'', StrC ''A'', StrC ''A'']]"
  let ?ok_keys = "[[StrC ''3dko'', StrC ''A'', StrC ''A''], [StrC ''2rei'', StrC ''B'', StrC ''A''],
      [StrC ''3dko'', StrC ''B'', StrC ''A''], [StrC ''2rei'', StrC ''A'', StrC ''A''],
      [StrC ''3v8t'', StrC ''B'', StrC ''A'']]"
  have c1: "columns (structures_all ?dup) = id_columns" by (simp add: duplicate_table_def)
  have c2: "columns (structures_all ?ok) = id_columns" by (simp add: seeded_table_def)
  have k1: "?dk = group_keys [''structure.pdb_id'', ''structure.alternate_model'', ''structure.chain'']
                    (structures_all ?dup)"
    by (simp add: duplicate_keys)
  have k2: "?ok_keys = group_keys [''structure.pdb_id'', ''structure.alternate_model'', ''structure.chain'']
                    (structures_all ?ok)"
    by (simp add: seeded_group_keys)
  obtain line1 where
    l1: "check_structures ?dup =
           Inr (?dup\<lparr>console := console ?dup @
                  [Print ''Sanity check: Are there multiple structure KLIFS IDs for one KLIFS structure?'',
                   line1]\<rparr>)"
    and d1: "if list_ex (\<lambda>k. 1 < count_list ?dk k) ?dk
             then \<exists>groups. line1 = Print_sizes groups \<and> distinct (map fst groups) \<and>
                    set groups = {(k, n). k \<in> set ?dk \<and> n = count_list ?dk k \<and> 1 < n}
             else line1 = Print ''All good!''"
    using structure_check_reports [OF c1 k1] by blast
  obtain line2 where
    l2: "check_structures ?ok =
           Inr (?ok\<lparr>console := console ?ok @
                  [Print ''Sanity check: Are there multiple structure KLIFS IDs for one KLIFS structure?'',
                   line2]\<rparr>)"
    and d2: "if list_ex (\<lambda>k. 1 < count_list ?ok_keys k) ?ok_keys
             then \<exists>groups. line2 = Print_sizes groups \<and> distinct (map fst groups) \<and>
                    set groups = {(k, n). k \<in> set ?ok_keys \<and> n = count_list ?ok_keys k \<and> 1 < n}
             else line2 = Print ''All good!''"
    using structure_check_reports [OF c2 k2] by blast
  have "line2 = Print ''All good!''" using d2 by simp
  then have e2: "check_structures ?ok =
     Inr (fresh Map.empty\<lparr>structures_all := seeded_table,
            console :=
              [Print ''Sanity check: Are there multiple structure KLIFS IDs for one KLIFS structure?'',
               Print ''All good!'']\<rparr>)"
    using l2 by (simp add: fresh_def)
  show ?thesis
    by (rule conjI [OF c1 conjI [OF duplicate_check conjI [OF c2 e2]]])
qed

subsection \<open>Ligands\<close>

lemma count_list_two:
  assumes "i < j" "j < length xs" "xs ! i = a" "xs ! j = a"
  shows "1 < count_list xs a"
proof -
  have xs: "xs = take j xs @ a # drop (Suc j) xs"
    using assms(2,4) by (metis id_take_nth_drop)
  have "take j xs ! i = a" using assms(1,3) by simp
  moreover have "i < length (take j xs)" using assms(1,2) by simp
  ultimately have "a \<in> set (take j xs)" by (metis nth_mem)
  then have "count_list (take j xs) a \<noteq> 0"
    by (simp add: count_list_0_iff)
  moreover have "count_list xs a = count_list (take j xs) a + count_list (a # drop (Suc j) xs) a"
    by (subst xs) (simp only: count_list_append)
  ultimately show ?thesis by simp
qed

lemma count_list_filter:
  "P a \<Longrightarrow> count_list (filter P xs) a = count_list xs a"
  by (induction xs) auto

lemma sorted_three_way:
  fixes f :: "'a \<Rightarrow> 'k::linorder"
  assumes "sorted (map f ys)"
  shows "filter (\<lambda>y. f y < c) ys @ filter (\<lambda>y. f y = c) ys @ filter (\<lambda>y. c < f y) ys = ys"
  using assms
proof (induction ys)
  case Nil
  then show ?case by simp
next
  case (Cons y ys)
  have ih: "filter (\<lambda>y. f y < c) ys @ filter (\<lambda>y. f y = c) ys @ filter (\<lambda>y. c < f y) ys = ys"
    using Cons by simp
  have le: "\<forall>z \<in> set ys. f y \<le> f z" using Cons.prems by simp
  consider "f y < c" | "f y = c" | "c < f y" by (rule linorder_cases)
  then show ?case
  proof cases
    case 1
    then have "f y \<noteq> c" "\<not> c < f y" by auto
    then show ?thesis using 1 ih by simp
  next
    case 2
    then have "filter (\<lambda>y. f y < c) ys = []" using le by (auto simp: filter_empty_conv)
    then show ?thesis using 2 ih by simp
  next
    case 3
    then have "filter (\<lambda>y. f y < c) ys = []" "filter (\<lambda>y. f y = c) ys = []"
      using le by (auto simp: filter_empty_conv)
    moreover have "f y \<noteq> c" "\<not> f y < c" using 3 by auto
    ultimately show ?thesis using 3 ih by simp
  qed
qed

lemma filter_eq_distinct:
  "distinct xs \<Longrightarrow> x \<in> set xs \<Longrightarrow> filter (\<lambda>c. c = x) xs = [x]"
  by (induction xs) (auto simp: filter_empty_conv)

lemma groupby_size_single:
  assumes "distinct (columns df)" "name \<in> set (columns df)"
  shows "groupby_size [name] df =
           Inr (map (\<lambda>k. (k, count_list (group_keys [name] df) k))
                  (sort (remdups (group_keys [name] df))))"
  using assms by (simp add: groupby_size_def filter_eq_distinct)

lemma select_cells:
  assumes "distinct cols" "length vals = length cols" "set wanted \<subseteq> set cols"
  shows "select wanted cols vals = map (cell_of cols vals) wanted"
proof -
  have "the (map_of (zip cols vals) w) = cell_of cols vals w" if "w \<in> set wanted" for w
  proof -
    have "w \<in> set cols" using that assms(3) by (rule subsetD [rotated])
    then have "\<exists>v. map_of (zip cols vals) w = Some v \<and>
                 map snd (filter (\<lambda>(n, v). n = w) (zip cols vals)) = [v]"
      by (rule filter_zip_distinct [OF assms(1,2)])
    then show ?thesis by (elim exE conjE) (simp add: cell_of_def)
  qed
  then have "map (\<lambda>w. the (map_of (zip cols vals) w)) wanted = map (cell_of cols vals) wanted"
    by (intro map_cong) simp_all
  then show ?thesis using select_distinct [OF assms] by simp
qed

lemma larger_than_one_keys:
  "([c] \<in> set (map fst (larger_than_one (map (\<lambda>k. (k, count_list keys k)) (sort (remdups keys)))))) =
     (1 < count_list keys [c])"
proof -
  have "([c] \<in> set (map fst (larger_than_one (map (\<lambda>k. (k, count_list keys k)) (sort (remdups keys)))))) =
        (\<exists>n. ([c], n) \<in> set (larger_than_one (map (\<lambda>k. (k, count_list keys k)) (sort (remdups keys)))))"
    by force
  also have "\<dots> = ([c] \<in> set keys \<and> 1 < count_list keys [c])"
    unfolding larger_than_one_sizes by simp
  also have "\<dots> = (1 < count_list keys [c])"
    by (metis count_list_0_iff not_less_zero)
  finally show ?thesis .
qed

lemma single_key: "group_keys [name] df =
    filter (\<lambda>k. NaN \<notin> set k) (map (\<lambda>(l, r). [cell_of (columns df) r name]) (rows df))"
  by (simp add: group_keys_def)

lemma shared_key_counts_twice:
  assumes "i < j" "j < length (rows df)"
    and "cell_of (columns df) (snd (rows df ! i)) name = c"
    and "cell_of (columns df) (snd (rows df ! j)) name = c" and "c \<noteq> NaN"
  shows "1 < count_list (group_keys [name] df) [c]"
proof -
  let ?ks = "map (\<lambda>(l, r). [cell_of (columns df) r name]) (rows df)"
  have "?ks ! i = [c]" "?ks ! j = [c]"
    using assms by (simp_all add: case_prod_beta)
  then have "1 < count_list ?ks [c]"
    using count_list_two [of i j ?ks "[c]"] assms(1,2) by simp
  moreover have "count_list (filter (\<lambda>k. NaN \<notin> set k) ?ks) [c] = count_list ?ks [c]"
    using assms(5) by (intro count_list_filter) simp
  ultimately show ?thesis by (simp add: single_key)
qed

lemma ligand_report:
  fixes L :: dataframe
  defines "kid \<equiv> ''ligand.klifs_id''" and "expo \<equiv> ''ligand.expo_id''"
  assumes d: "distinct (columns L)" and rect: "rectangular L"
    and k: "kid \<in> set (columns L)" and x: "expo \<in> set (columns L)"
    and strs: "list_all (\<lambda>c. \<not> is_int c) (column_cells expo L)"
    and amb: "ambiguous = filter (\<lambda>(l, r). test (cell_of (columns L) r expo)) (rows L)"
  shows "\<exists>report.
           bind (rows_where expo test L) (\<lambda>found.
             bind (getitem_columns [kid, expo] found) (\<lambda>ids.
               bind (sort_values expo ids) f)) = f report \<and>
           columns report = [kid, expo] \<and>
           mset (rows report) =
             mset (map (\<lambda>(l, r). (l, [cell_of (columns L) r kid, cell_of (columns L) r expo])) ambiguous) \<and>
           sorted (column_cells expo report)"
proof -
  let ?cols = "columns L"
  let ?found = "L\<lparr>rows := ambiguous\<rparr>"
  have w: "rows_where expo test L = Inr ?found"
    using x d by (simp add: rows_where_def amb filter_eq_distinct)
  have sub: "set [kid, expo] \<subseteq> set ?cols" using k x by simp
  have len: "length r = length ?cols" if "(l, r) \<in> set ambiguous" for l r
    using that rect by (auto simp: amb rectangular_def list_all_iff)
  have sel: "select [kid, expo] ?cols r = [cell_of ?cols r kid, cell_of ?cols r expo]"
    if "(l, r) \<in> set ambiguous" for l r
    using select_cells [OF d len [OF that] sub] by simp
  let ?ids = "\<lparr>columns = [kid, expo],
               rows = map (\<lambda>(l, r). (l, [cell_of ?cols r kid, cell_of ?cols r expo])) ambiguous\<rparr>"
  have "map (\<lambda>(l, r). (l, select [kid, expo] ?cols r)) ambiguous =
        map (\<lambda>(l, r). (l, [cell_of ?cols r kid, cell_of ?cols r expo])) ambiguous"
    using sel by (auto intro!: map_cong)
  then have g: "getitem_columns [kid, expo] ?found = Inr ?ids"
    using k x d by (simp add: getitem_columns_def select_names [OF d sub])
  have rows_ids: "rows ?ids = map (\<lambda>(l, r). (l, [cell_of ?cols r kid, cell_of ?cols r expo])) ambiguous"
    by simp
  have ne: "kid \<noteq> expo" by (simp add: kid_def expo_def)
  have keys: "column_cells expo ?ids = map (\<lambda>(l, r). cell_of ?cols r expo) ambiguous"
    using ne by (simp add: column_cells_def cell_of_def comp_def case_prod_beta)
  have "set (column_cells expo ?ids) \<subseteq> set (column_cells expo L)"
    unfolding keys by (auto simp: amb column_cells_def)
  then have noint: "\<not> list_ex is_int (column_cells expo ?ids)"
    using strs by (auto simp: list_ex_iff list_all_iff)
  let ?report = "?ids\<lparr>rows := sort_key (\<lambda>(l, r). cell_of [kid, expo] r expo) (rows ?ids)\<rparr>"
  have s: "sort_values expo ?ids = Inr ?report"
    using ne noint by (simp add: sort_values_def Let_def)
  have "bind (rows_where expo test L) (\<lambda>found.
             bind (getitem_columns [kid, expo] found) (\<lambda>ids.
               bind (sort_values expo ids) f)) = f ?report"
    by (simp add: w g s bind_def)
  moreover have "columns ?report = [kid, expo]" by simp
  moreover have "mset (rows ?report) =
             mset (map (\<lambda>(l, r). (l, [cell_of ?cols r kid, cell_of ?cols r expo])) ambiguous)"
    using rows_ids by simp
  moreover have "sorted (column_cells expo ?report)"
    by (simp add: column_cells_def)
  ultimately show ?thesis by blast
qed

text \<open>
  Claim C7. The ligand check groups the ligand records by Expo ID. For every ligands
  table (rectangular, with distinct column names among them \<^verbatim>\<open>ligand.klifs_id\<close> and
  \<^verbatim>\<open>ligand.expo_id\<close>, the Expo IDs being strings or missing) the check returns without
  an exception and changes nothing but the console. The records \<open>ambiguous\<close> are those
  whose Expo ID is carried by more than one record. If there are none the check prints
  \<^verbatim>\<open>All good!\<close>; otherwise it prints a report with the columns \<^verbatim>\<open>ligand.klifs_id\<close> and
  \<^verbatim>\<open>ligand.expo_id\<close> that holds exactly the ambiguous records, sorted by Expo ID, so
  that the records of one Expo ID stand together. Any two records that share an Expo
  ID, such as two ligands with the Expo ID 6VL, are ambiguous and so are both in the
  report.
\<close>

theorem ligand_check_reports:
  assumes d: "distinct (columns (ligands_all nb))" and rect: "rectangular (ligands_all nb)"
    and k: "''ligand.klifs_id'' \<in> set (columns (ligands_all nb))"
    and x: "''ligand.expo_id'' \<in> set (columns (ligands_all nb))"
    and strs: "list_all (\<lambda>c. \<not> is_int c) (column_cells ''ligand.expo_id'' (ligands_all nb))"
    and keys: "keys = group_keys [''ligand.expo_id''] (ligands_all nb)"
    and amb: "ambiguous =
                filter (\<lambda>(l, r). 1 < count_list keys [cell_of (columns (ligands_all nb)) r ''ligand.expo_id''])
                  (rows (ligands_all nb))"
  shows "\<exists>lines.
           check_ligands nb =
             Inr (nb\<lparr>console := console nb @
                    Print ''Sanity check: Are there multiple ligand KLIFS IDs for one ligand PDB?'' # lines\<rparr>) \<and>
           (if ambiguous = [] then lines = [Print ''All good!'']
            else \<exists>report.
                   lines = [Print_frame report, Print ''These PDB IDs need to be check manually!''] \<and>
                   columns report = [''ligand.klifs_id'', ''ligand.expo_id''] \<and>
                   mset (rows report) =
                     mset (map (\<lambda>(l, r). (l, [cell_of (columns (ligands_all nb)) r ''ligand.klifs_id'',
                                               cell_of (columns (ligands_all nb)) r ''ligand.expo_id'']))
                            ambiguous) \<and>
                   sorted (column_cells ''ligand.expo_id'' report) \<and>
                   (\<forall>c. \<exists>before together after.
                      rows report = before @ together @ after \<and>
                      list_all (\<lambda>(l, r). cell_of (columns report) r ''ligand.expo_id'' = c) together \<and>
                      list_all (\<lambda>(l, r). cell_of (columns report) r ''ligand.expo_id'' \<noteq> c)
                        (before @ after))) \<and>
           (\<forall>i j. i < j \<and> j < length (rows (ligands_all nb)) \<and>
                  cell_of (columns (ligands_all nb)) (snd (rows (ligands_all nb) ! i)) ''ligand.expo_id'' =
                  cell_of (columns (ligands_all nb)) (snd (rows (ligands_all nb) ! j)) ''ligand.expo_id'' \<and>
                  cell_of (columns (ligands_all nb)) (snd (rows (ligands_all nb) ! i)) ''ligand.expo_id'' \<noteq> NaN
              \<longrightarrow> rows (ligands_all nb) ! i \<in> set ambiguous \<and> rows (ligands_all nb) ! j \<in> set ambiguous)"
proof -
  let ?L = "ligands_all nb"
  let ?cols = "columns ?L"
  let ?expo = "''ligand.expo_id''"
  let ?sizes = "map (\<lambda>k. (k, count_list keys k)) (sort (remdups keys))"
  let ?test = "\<lambda>c. [c] \<in> set (map fst (larger_than_one ?sizes))"
  let ?head = "Print ''Sanity check: Are there multiple ligand KLIFS IDs for one ligand PDB?''"
  have g: "groupby_size [?expo] ?L = Inr ?sizes"
    using groupby_size_single [OF d x] keys by simp
  have amb': "ambiguous = filter (\<lambda>(l, r). ?test (cell_of ?cols r ?expo)) (rows ?L)"
    unfolding amb larger_than_one_keys ..
  have empty: "(larger_than_one ?sizes = []) = (ambiguous = [])"
  proof
    assume e: "larger_than_one ?sizes = []"
    show "ambiguous = []"
      unfolding amb' e by simp
  next
    assume a: "ambiguous = []"
    show "larger_than_one ?sizes = []"
    proof (rule ccontr)
      assume "larger_than_one ?sizes \<noteq> []"
      then obtain k where kk: "k \<in> set keys" "1 < count_list keys k"
        by (auto simp: larger_than_one_empty list_ex_iff)
      then obtain l r where lr: "(l, r) \<in> set (rows ?L)" "k = [cell_of ?cols r ?expo]"
        unfolding keys single_key by auto
      then have "(l, r) \<in> set ambiguous" using kk by (simp add: amb)
      then show False using a by simp
    qed
  qed
  show ?thesis
  proof (cases "ambiguous = []")
    case True
    then have "larger_than_one ?sizes = []" using empty by simp
    then have c: "check_ligands nb = Inr (nb\<lparr>console := console nb @ ?head # [Print ''All good!'']\<rparr>)"
      by (simp add: check_ligands_def g bind_def)
    have sc: "rows ?L ! i \<in> set ambiguous \<and> rows ?L ! j \<in> set ambiguous"
      if hi: "i < j" and hj: "j < length (rows ?L)"
        and he: "cell_of ?cols (snd (rows ?L ! i)) ?expo = cell_of ?cols (snd (rows ?L ! j)) ?expo"
        and hn: "cell_of ?cols (snd (rows ?L ! i)) ?expo \<noteq> NaN" for i j
    proof -
      have "1 < count_list keys [cell_of ?cols (snd (rows ?L ! i)) ?expo]"
        unfolding keys by (rule shared_key_counts_twice [OF hi hj refl he [symmetric] hn])
      moreover have "rows ?L ! i \<in> set (rows ?L)" "rows ?L ! j \<in> set (rows ?L)"
        using hi hj by simp_all
      ultimately show ?thesis using he [symmetric] by (simp add: amb case_prod_beta)
    qed
    show ?thesis using c True sc by auto
  next
    case False
    then have ne: "0 < length (larger_than_one ?sizes)" using empty by simp
    let ?f = "\<lambda>report. Inr (nb\<lparr>console := console nb @
                   [?head, Print_frame report, Print ''These PDB IDs need to be check manually!'']\<rparr>)"
    obtain report where
      r1: "bind (rows_where ?expo ?test ?L) (\<lambda>found.
             bind (getitem_columns [''ligand.klifs_id'', ?expo] found) (\<lambda>ids.
               bind (sort_values ?expo ids) ?f)) = ?f report"
      and r2: "columns report = [''ligand.klifs_id'', ?expo]"
      and r3: "mset (rows report) =
             mset (map (\<lambda>(l, r). (l, [cell_of ?cols r ''ligand.klifs_id'', cell_of ?cols r ?expo])) ambiguous)"
      and r4: "sorted (column_cells ?expo report)"
      using ligand_report [OF d rect k x strs amb', of ?f] by blast
    have c: "check_ligands nb = ?f report"
      using ne r1 by (simp add: check_ligands_def g bind_def)
    have tog: "\<exists>before together after.
                      rows report = before @ together @ after \<and>
                      list_all (\<lambda>(l, r). cell_of (columns report) r ?expo = c) together \<and>
                      list_all (\<lambda>(l, r). cell_of (columns report) r ?expo \<noteq> c) (before @ after)" for c
    proof -
      let ?k = "\<lambda>(l :: int, r). cell_of (columns report) r ?expo"
      have "sorted (map ?k (rows report))" using r4 by (simp add: column_cells_def)
      then have "filter (\<lambda>y. ?k y < c) (rows report) @ filter (\<lambda>y. ?k y = c) (rows report) @
                 filter (\<lambda>y. c < ?k y) (rows report) = rows report"
        by (rule sorted_three_way)
      then have "rows report = filter (\<lambda>y. ?k y < c) (rows report) @ filter (\<lambda>y. ?k y = c) (rows report) @
                 filter (\<lambda>y. c < ?k y) (rows report)" by simp
      moreover have "list_all (\<lambda>(l, r). cell_of (columns report) r ?expo = c)
                       (filter (\<lambda>y. ?k y = c) (rows report))"
        by (auto simp: list_all_iff)
      moreover have "list_all (\<lambda>(l, r). cell_of (columns report) r ?expo \<noteq> c)
                       (filter (\<lambda>y. ?k y < c) (rows report) @ filter (\<lambda>y. c < ?k y) (rows report))"
        by (auto simp: list_all_iff)
      ultimately show ?thesis by blast
    qed
    have sc: "rows ?L ! i \<in> set ambiguous \<and> rows ?L ! j \<in> set ambiguous"
      if hi: "i < j" and hj: "j < length (rows ?L)"
        and he: "cell_of ?cols (snd (rows ?L ! i)) ?expo = cell_of ?cols (snd (rows ?L ! j)) ?expo"
        and hn: "cell_of ?cols (snd (rows ?L ! i)) ?expo \<noteq> NaN" for i j
    proof -
      have "1 < count_list keys [cell_of ?cols (snd (rows ?L ! i)) ?expo]"
        unfolding keys by (rule shared_key_counts_twice [OF hi hj refl he [symmetric] hn])
      moreover have "rows ?L ! i \<in> set (rows ?L)" "rows ?L ! j \<in> set (rows ?L)"
        using hi hj by simp_all
      ultimately show ?thesis using he [symmetric] by (simp add: amb case_prod_beta)
    qed
    show ?thesis using c False r2 r3 r4 tog sc by auto
  qed
qed

lemma demo_ligand_sizes:
  "groupby_size [''ligand.expo_id''] demo_ligands = Inr [([StrC ''6VL''], 2), ([StrC ''7KC''], 1)]"
  by code_simp

lemma demo_ligand_report:
  "bind (rows_where ''ligand.expo_id'' (\<lambda>c. [c] \<in> set (map fst (larger_than_one [([StrC ''6VL''], 2 :: nat), ([StrC ''7KC''], 1)])))
           demo_ligands) (\<lambda>ambiguous.
     bind (getitem_columns [''ligand.klifs_id'', ''ligand.expo_id''] ambiguous)
       (sort_values ''ligand.expo_id'')) = Inr ligand_report_6VL"
  by code_simp

lemma demo_ligand_check:
  "check_ligands (fresh Map.empty\<lparr>ligands_all := demo_ligands\<rparr>) =
     Inr (fresh Map.empty\<lparr>ligands_all := demo_ligands,
            console :=
              [Print ''Sanity check: Are there multiple ligand KLIFS IDs for one ligand PDB?'',
               Print_frame ligand_report_6VL,
               Print ''These PDB IDs need to be check manually!'']\<rparr>)"
proof -
  have "bind (rows_where ''ligand.expo_id'' (\<lambda>c. [c] \<in> set (map fst (larger_than_one [([StrC ''6VL''], 2 :: nat), ([StrC ''7KC''], 1)])))
           demo_ligands) (\<lambda>ambiguous.
     bind (getitem_columns [''ligand.klifs_id'', ''ligand.expo_id''] ambiguous) (\<lambda>ids.
     bind (sort_values ''ligand.expo_id'' ids) f)) = f ligand_report_6VL" for f :: "dataframe \<Rightarrow> exn + notebook"
    using demo_ligand_report by (auto simp: bind_def split: sum.splits)
  moreover have "0 < length (larger_than_one [([StrC ''6VL''], 2 :: nat), ([StrC ''7KC''], 1)])"
    by (simp add: larger_than_one_def)
  ultimately show ?thesis
    by (simp add: check_ligands_def demo_ligand_sizes bind_Inr fresh_def)
qed

theorem ligand_check_reports_witness:
  "distinct (columns demo_ligands) \<and> rectangular demo_ligands \<and>
   list_all (\<lambda>c. \<not> is_int c) (column_cells ''ligand.expo_id'' demo_ligands) \<and>
   check_ligands (fresh Map.empty\<lparr>ligands_all := demo_ligands\<rparr>) =
     Inr (fresh Map.empty\<lparr>ligands_all := demo_ligands,
            console :=
              [Print ''Sanity check: Are there multiple ligand KLIFS IDs for one ligand PDB?'',
               Print_frame ligand_report_6VL,
               Print ''These PDB IDs need to be check manually!'']\<rparr>) \<and>
   rows demo_ligands ! 0 \<in>
     set (filter (\<lambda>(l, r). 1 < count_list (group_keys [''ligand.expo_id''] demo_ligands)
                                [cell_of (columns demo_ligands) r ''ligand.expo_id''])
            (rows demo_ligands)) \<and>
   rows demo_ligands ! 2 \<in>
     set (filter (\<lambda>(l, r). 1 < count_list (group_keys [''ligand.expo_id''] demo_ligands)
                                [cell_of (columns demo_ligands) r ''ligand.expo_id''])
            (rows demo_ligands))"
proof -
  let ?nb = "fresh Map.empty\<lparr>ligands_all := demo_ligands\<rparr>"
  let ?amb = "filter (\<lambda>(l, r). 1 < count_list (group_keys [''ligand.expo_id''] demo_ligands)
                                [cell_of (columns demo_ligands) r ''ligand.expo_id''])
            (rows demo_ligands)"
  have l: "ligands_all ?nb = demo_ligands" by simp
  have d: "distinct (columns demo_ligands)" by (simp add: demo_ligands_def)
  have rect: "rectangular demo_ligands" by (simp add: demo_ligands_def rectangular_def)
  have k: "''ligand.klifs_id'' \<in> set (columns demo_ligands)" by (simp add: demo_ligands_def)
  have x: "''ligand.expo_id'' \<in> set (columns demo_ligands)" by (simp add: demo_ligands_def)
  have strs: "list_all (\<lambda>c. \<not> is_int c) (column_cells ''ligand.expo_id'' demo_ligands)"
    by (simp add: demo_ligands_def column_cells_def cell_of_def)
  have "\<forall>i j. i < j \<and> j < length (rows demo_ligands) \<and>
                  cell_of (columns demo_ligands) (snd (rows demo_ligands ! i)) ''ligand.expo_id'' =
                  cell_of (columns demo_ligands) (snd (rows demo_ligands ! j)) ''ligand.expo_id'' \<and>
                  cell_of (columns demo_ligands) (snd (rows demo_ligands ! i)) ''ligand.expo_id'' \<noteq> NaN
              \<longrightarrow> rows demo_ligands ! i \<in> set ?amb \<and> rows demo_ligands ! j \<in> set ?amb"
    using ligand_check_reports [of ?nb "group_keys [''ligand.expo_id''] demo_ligands" ?amb,
        unfolded l, OF d rect k x strs refl refl]
    by (elim exE conjE)
  then have "(0 :: nat) < 2 \<and> 2 < length (rows demo_ligands) \<and>
                  cell_of (columns demo_ligands) (snd (rows demo_ligands ! 0)) ''ligand.expo_id'' =
                  cell_of (columns demo_ligands) (snd (rows demo_ligands ! 2)) ''ligand.expo_id'' \<and>
                  cell_of (columns demo_ligands) (snd (rows demo_ligands ! 0)) ''ligand.expo_id'' \<noteq> NaN
              \<longrightarrow> rows demo_ligands ! 0 \<in> set ?amb \<and> rows demo_ligands ! 2 \<in> set ?amb"
    by (elim allE)
  moreover have "(0 :: nat) < 2 \<and> 2 < length (rows demo_ligands) \<and>
                  cell_of (columns demo_ligands) (snd (rows demo_ligands ! 0)) ''ligand.expo_id'' =
                  cell_of (columns demo_ligands) (snd (rows demo_ligands ! 2)) ''ligand.expo_id'' \<and>
                  cell_of (columns demo_ligands) (snd (rows demo_ligands ! 0)) ''ligand.expo_id'' \<noteq> NaN"
    by (simp add: demo_ligands_def cell_of_def)
  ultimately have m: "rows demo_ligands ! 0 \<in> set ?amb \<and> rows demo_ligands ! 2 \<in> set ?amb"
    by (rule mp)
  show ?thesis
    by (rule conjI [OF d conjI [OF rect conjI [OF strs conjI [OF demo_ligand_check m]]]])
qed

section \<open>Reading back what was written\<close>

subsection \<open>The tokenizer on the writer's text\<close>

text \<open>
  A tokenizer without an error: its state, the characters of the open field, the fields
  of the open record and the records that are complete.
\<close>

abbreviation tk :: "tstate \<Rightarrow> string \<Rightarrow> string list \<Rightarrow> string list list \<Rightarrow> tokenizer" where
  "tk s w l ls \<equiv> \<lparr>tk_state = s, tk_word = w, tk_line = l, tk_lines = ls, tk_error = None\<rparr>"

lemma special_chars [simp]:
  "comma \<noteq> dquote" "comma \<noteq> LF" "comma \<noteq> CR" "dquote \<noteq> comma" "dquote \<noteq> LF" "dquote \<noteq> CR"
  "LF \<noteq> comma" "LF \<noteq> dquote" "LF \<noteq> CR" "CR \<noteq> comma" "CR \<noteq> dquote" "CR \<noteq> LF"
  "\<not> is_blank comma" "\<not> is_blank dquote" "\<not> is_blank LF" "\<not> is_blank CR"
  by (simp_all add: comma_def dquote_def LF_def CR_def is_blank_def)

lemma needs_quotes_Cons:
  "needs_quotes (c # cs) = (c = comma \<or> c = dquote \<or> c = LF \<or> needs_quotes cs)"
  by (auto simp: needs_quotes_def)

text \<open>
  A carriage return in a field that is written without quotes ends the record for the
  reader. A field is intact when it has none, or is written in quotes.
\<close>

definition intact :: "string \<Rightarrow> bool" where
  "intact f = (needs_quotes f \<or> CR \<notin> set f)"

lemma needs_quotes_Nil [simp]: "\<not> needs_quotes []"
  by (simp add: needs_quotes_def)

lemma in_field_plain:
  "\<not> needs_quotes cs \<Longrightarrow> CR \<notin> set cs \<Longrightarrow>
   fold step cs (tk IN_FIELD w l ls) = tk IN_FIELD (w @ cs) l ls"
proof (induction cs arbitrary: w)
  case Nil
  then show ?case by simp
next
  case (Cons c cs)
  then have c: "c \<noteq> comma" "c \<noteq> dquote" "c \<noteq> CR" "c \<noteq> LF"
    and r: "\<not> needs_quotes cs" "CR \<notin> set cs"
    by (auto simp: needs_quotes_Cons)
  have "step c (tk IN_FIELD w l ls) = tk IN_FIELD (w @ [c]) l ls"
    using c by (simp add: step_def in_field_step_def push_char_def)
  then show ?case using Cons.IH [OF r, of "w @ [c]"] by simp
qed

text \<open>The inside of a quoted field as the writer puts it.\<close>

definition escape :: "string \<Rightarrow> string" where
  "escape s = concat (map (\<lambda>c. if c = dquote then [dquote, dquote] else [c]) s)"

lemma in_quoted_field:
  "fold step (escape f) (tk IN_QUOTED_FIELD w l ls) = tk IN_QUOTED_FIELD (w @ f) l ls"
proof (induction f arbitrary: w)
  case Nil
  then show ?case by (simp add: escape_def)
next
  case (Cons c cs)
  have e: "escape (c # cs) = (if c = dquote then [dquote, dquote] else [c]) @ escape cs"
    by (simp add: escape_def)
  have "fold step (if c = dquote then [dquote, dquote] else [c]) (tk IN_QUOTED_FIELD w l ls) =
          tk IN_QUOTED_FIELD (w @ [c]) l ls"
    by (simp add: step_def quote_in_quoted_field_step_def push_char_def)
  then show ?case using Cons [of "w @ [c]"] by (simp add: e)
qed

lemma quote_field_cases:
  "quote_field f = (if needs_quotes f then dquote # escape f @ [dquote] else f)"
  by (simp add: quote_field_def escape_def)

lemma field_then_comma:
  assumes "intact f"
  shows "fold step (quote_field f @ [comma]) (tk START_FIELD [] l ls) =
           tk START_FIELD [] (l @ [c_string f]) ls"
proof (cases "needs_quotes f")
  case True
  have "fold step (dquote # escape f @ [dquote, comma]) (tk START_FIELD [] l ls) =
          fold step [dquote, comma] (fold step (escape f) (tk IN_QUOTED_FIELD [] l ls))"
    by (simp add: step_def start_field_step_def)
  also have "\<dots> = tk START_FIELD [] (l @ [c_string f]) ls"
    by (simp add: in_quoted_field step_def quote_in_quoted_field_step_def end_field_def)
  finally show ?thesis using True by (simp add: quote_field_cases)
next
  case False
  show ?thesis
  proof (cases f)
    case Nil
    then show ?thesis using False
      by (simp add: quote_field_cases step_def start_field_step_def end_field_def c_string_def)
  next
    case (Cons c cs)
    then have c: "c \<noteq> comma" "c \<noteq> dquote" "c \<noteq> CR" "c \<noteq> LF"
      and r: "\<not> needs_quotes cs" "CR \<notin> set cs"
      using False assms by (auto simp: needs_quotes_Cons intact_def)
    have "fold step (c # cs @ [comma]) (tk START_FIELD [] l ls) =
            fold step [comma] (fold step cs (tk IN_FIELD [c] l ls))"
      using c by (simp add: step_def start_field_step_def push_char_def)
    also have "\<dots> = tk START_FIELD [] (l @ [c_string f]) ls"
      using Cons by (simp add: in_field_plain [OF r] step_def in_field_step_def end_field_def)
    finally show ?thesis using False Cons by (simp add: quote_field_cases)
  qed
qed

lemma whitespace_line_plain:
  "\<not> needs_quotes cs \<Longrightarrow> CR \<notin> set cs \<Longrightarrow>
   fold step (cs @ [comma]) (tk WHITESPACE_LINE w l ls) = tk START_FIELD [] (l @ [c_string (w @ cs)]) ls"
proof (induction cs arbitrary: w)
  case Nil
  then show ?case
    by (simp add: step_def whitespace_line_step_def in_field_step_def end_field_def)
next
  case (Cons c cs)
  then have c: "c \<noteq> comma" "c \<noteq> dquote" "c \<noteq> CR" "c \<noteq> LF"
    and r: "\<not> needs_quotes cs" "CR \<notin> set cs"
    by (auto simp: needs_quotes_Cons)
  show ?case
  proof (cases "is_blank c")
    case True
    then have "step c (tk WHITESPACE_LINE w l ls) = tk WHITESPACE_LINE (w @ [c]) l ls"
      using c by (simp add: step_def whitespace_line_step_def push_char_def)
    then show ?thesis using Cons.IH [OF r, of "w @ [c]"] by simp
  next
    case False
    then have "step c (tk WHITESPACE_LINE w l ls) = tk IN_FIELD (w @ [c]) l ls"
      using c by (simp add: step_def whitespace_line_step_def in_field_step_def push_char_def)
    then have "fold step ((c # cs) @ [comma]) (tk WHITESPACE_LINE w l ls) =
                 fold step [comma] (fold step cs (tk IN_FIELD (w @ [c]) l ls))"
      by simp
    also have "\<dots> = tk START_FIELD [] (l @ [c_string (w @ c # cs)]) ls"
      by (simp add: in_field_plain [OF r] step_def in_field_step_def end_field_def)
    finally show ?thesis .
  qed
qed

lemma first_field_then_comma:
  assumes "intact f"
  shows "fold step (quote_field f @ [comma]) (tk START_RECORD [] l ls) =
           tk START_FIELD [] (l @ [c_string f]) ls"
proof (cases "needs_quotes f")
  case True
  have "step dquote (tk START_RECORD [] l ls) = step dquote (tk START_FIELD [] l ls)"
    by (simp add: step_def start_record_step_def start_field_step_def)
  then have "fold step (quote_field f @ [comma]) (tk START_RECORD [] l ls) =
             fold step (quote_field f @ [comma]) (tk START_FIELD [] l ls)"
    using True by (simp add: quote_field_cases)
  then show ?thesis using field_then_comma [OF assms, of l ls] by simp
next
  case False
  show ?thesis
  proof (cases f)
    case Nil
    then show ?thesis using False
      by (simp add: quote_field_cases step_def start_record_step_def start_field_step_def
          end_field_def c_string_def)
  next
    case (Cons c cs)
    then have c: "c \<noteq> comma" "c \<noteq> dquote" "c \<noteq> CR" "c \<noteq> LF"
      and r: "\<not> needs_quotes cs" "CR \<notin> set cs"
      using False assms by (auto simp: needs_quotes_Cons intact_def)
    show ?thesis
    proof (cases "is_blank c")
      case True
      then have "step c (tk START_RECORD [] l ls) = tk WHITESPACE_LINE [c] l ls"
        using c by (simp add: step_def start_record_step_def push_char_def)
      then have "fold step (f @ [comma]) (tk START_RECORD [] l ls) =
                   fold step (cs @ [comma]) (tk WHITESPACE_LINE [c] l ls)"
        using Cons by simp
      then show ?thesis
        using False Cons whitespace_line_plain [OF r, of "[c]" l ls] by (simp add: quote_field_cases)
    next
      case b: False
      then have "step c (tk START_RECORD [] l ls) = step c (tk START_FIELD [] l ls)"
        using c by (simp add: step_def start_record_step_def start_field_step_def push_char_def)
      then have "fold step (f @ [comma]) (tk START_RECORD [] l ls) =
                   fold step (f @ [comma]) (tk START_FIELD [] l ls)"
        using Cons by simp
      then show ?thesis
        using False field_then_comma [OF assms, of l ls] by (simp add: quote_field_cases)
    qed
  qed
qed

text \<open>The last field of a record and the line feed after it.\<close>

lemma end_line_regular:
  assumes "ls = [] \<or> length (last ls) = length l"
  shows "end_line (tk s [] l ls) = tk s [] [] (ls @ [l])"
  using assms by (auto simp: end_line_def Let_def)

lemma field_then_LF:
  assumes "intact f" and "ls = [] \<or> length (last ls) = Suc (length l)"
  shows "fold step (quote_field f @ [LF]) (tk START_FIELD [] l ls) =
           tk START_RECORD [] [] (ls @ [l @ [c_string f]])"
proof -
  have e: "end_line (tk s [] (l @ [c_string f]) ls) = tk s [] [] (ls @ [l @ [c_string f]])" for s
    using assms(2) by (intro end_line_regular) simp
  show ?thesis
  proof (cases "needs_quotes f")
    case True
    have "fold step (dquote # escape f @ [dquote, LF]) (tk START_FIELD [] l ls) =
            fold step [dquote, LF] (fold step (escape f) (tk IN_QUOTED_FIELD [] l ls))"
      by (simp add: step_def start_field_step_def)
    also have "\<dots> = tk START_RECORD [] [] (ls @ [l @ [c_string f]])"
      by (simp add: in_quoted_field step_def quote_in_quoted_field_step_def end_field_def e)
    finally show ?thesis using True by (simp add: quote_field_cases)
  next
    case False
    show ?thesis
    proof (cases f)
      case Nil
      then show ?thesis using False e [of START_FIELD]
        by (simp add: quote_field_cases step_def start_field_step_def end_field_def c_string_def)
    next
      case (Cons c cs)
      then have c: "c \<noteq> comma" "c \<noteq> dquote" "c \<noteq> CR" "c \<noteq> LF"
        and r: "\<not> needs_quotes cs" "CR \<notin> set cs"
        using False assms by (auto simp: needs_quotes_Cons intact_def)
      have "fold step (c # cs @ [LF]) (tk START_FIELD [] l ls) =
              fold step [LF] (fold step cs (tk IN_FIELD [c] l ls))"
        using c by (simp add: step_def start_field_step_def push_char_def)
      also have "\<dots> = tk START_RECORD [] [] (ls @ [l @ [c_string f]])"
        using Cons e [of IN_FIELD]
        by (simp add: in_field_plain [OF r] step_def in_field_step_def end_field_def)
      finally show ?thesis using False Cons by (simp add: quote_field_cases)
    qed
  qed
qed

lemma fields_then_LF:
  assumes "list_all intact (g # gs)" and "ls = [] \<or> length (last ls) = length l + length (g # gs)"
  shows "fold step (join_fields (map quote_field (g # gs)) @ [LF]) (tk START_FIELD [] l ls) =
           tk START_RECORD [] [] (ls @ [l @ map c_string (g # gs)])"
  using assms
proof (induction gs arbitrary: g l)
  case Nil
  then show ?case using field_then_LF [of g ls l] by simp
next
  case (Cons h hs)
  have ig: "intact g" and ih: "list_all intact (h # hs)" using Cons.prems(1) by simp_all
  have "fold step (join_fields (map quote_field (g # h # hs)) @ [LF]) (tk START_FIELD [] l ls) =
          fold step (join_fields (map quote_field (h # hs)) @ [LF])
            (fold step (quote_field g @ [comma]) (tk START_FIELD [] l ls))"
    by simp
  also have "\<dots> = fold step (join_fields (map quote_field (h # hs)) @ [LF])
                     (tk START_FIELD [] (l @ [c_string g]) ls)"
    by (simp only: field_then_comma [OF ig])
  also have "\<dots> = tk START_RECORD [] [] (ls @ [(l @ [c_string g]) @ map c_string (h # hs)])"
    using Cons.prems(2) by (intro Cons.IH [OF ih]) simp
  finally show ?case by simp
qed

lemma record_round_trip:
  assumes "2 \<le> length fs" and "ls = [] \<or> length (last ls) = length fs"
    and "list_all intact fs"
  shows "fold step (write_row fs) (tk START_RECORD [] [] ls) =
           tk START_RECORD [] [] (ls @ [map c_string fs])"
proof -
  obtain f g gs where fs: "fs = f # g # gs"
    using assms(1) by (cases fs; cases "tl fs") auto
  have "write_row fs = (quote_field f @ [comma]) @ join_fields (map quote_field (g # gs)) @ [LF]"
    by (simp add: write_row_def fs)
  then have "fold step (write_row fs) (tk START_RECORD [] [] ls) =
          fold step (join_fields (map quote_field (g # gs)) @ [LF])
            (fold step (quote_field f @ [comma]) (tk START_RECORD [] [] ls))"
    by (simp only: fold_append comp_def)
  also have "\<dots> = fold step (join_fields (map quote_field (g # gs)) @ [LF])
                     (tk START_FIELD [] [c_string f] ls)"
    using first_field_then_comma [of f "[]" ls] assms(3) by (simp add: fs)
  also have "\<dots> = tk START_RECORD [] [] (ls @ [[c_string f] @ map c_string (g # gs)])"
    using assms(2,3) by (intro fields_then_LF) (simp_all add: fs)
  finally show ?thesis by (simp add: fs)
qed

lemma records_round_trip:
  assumes "list_all (\<lambda>fs. length fs = n \<and> list_all intact fs) recs" and "2 \<le> n"
    and "ls = [] \<or> length (last ls) = n"
  shows "fold step (concat (map write_row recs)) (tk START_RECORD [] [] ls) =
           tk START_RECORD [] [] (ls @ map (map c_string) recs)"
  using assms(1,3)
proof (induction recs arbitrary: ls)
  case Nil
  then show ?case by simp
next
  case (Cons fs recs)
  have len: "length fs = n" and ok: "list_all intact fs"
    and rest: "list_all (\<lambda>fs. length fs = n \<and> list_all intact fs) recs"
    using Cons.prems(1) by simp_all
  have "fold step (concat (map write_row (fs # recs))) (tk START_RECORD [] [] ls) =
          fold step (concat (map write_row recs)) (fold step (write_row fs) (tk START_RECORD [] [] ls))"
    by simp
  also have "\<dots> = fold step (concat (map write_row recs))
                     (tk START_RECORD [] [] (ls @ [map c_string fs]))"
    using record_round_trip [of fs ls] len ok assms(2) Cons.prems(2) by simp
  also have "\<dots> = tk START_RECORD [] [] ((ls @ [map c_string fs]) @ map (map c_string) recs)"
    using len by (intro Cons.IH [OF rest]) simp
  finally show ?case by simp
qed

lemma tokenize_written:
  assumes "list_all (\<lambda>fs. length fs = n \<and> list_all intact fs) recs" and "2 \<le> n"
  shows "tokenize (concat (map write_row recs)) = Inr (map (map c_string) recs)"
  using records_round_trip [OF assms, of "[]"]
  by (simp add: tokenize_def tk_init_def finish_def)


subsection \<open>The records of a written table\<close>

lemma length_row_texts [simp]: "length (row_texts df r) = length r"
  by (simp add: row_texts_def)

lemma row_texts_nth:
  "j < length r \<Longrightarrow> row_texts df r ! j = cell_text (held_as_float j df) (r ! j)"
  by (simp add: row_texts_def)

lemma intact_Nil [simp]: "intact []"
  by (simp add: intact_def)

lemma intact_str_int: "intact (str_int i)"
proof -
  have "CR \<notin> set (str_int i)"
    using str_int_chars [of CR i] by (auto simp: is_digit_def CR_def)
  then show ?thesis by (simp add: intact_def)
qed

lemma intact_float: "intact (str_int i @ ''.0'')"
proof -
  have "CR \<notin> set (str_int i)"
    using str_int_chars [of CR i] by (auto simp: is_digit_def CR_def)
  then show ?thesis by (simp add: intact_def CR_def)
qed

text \<open>The string cells of a table are intact.\<close>

definition intact_cells :: "dataframe \<Rightarrow> bool" where
  "intact_cells df =
     list_all (\<lambda>(l, r). list_all (\<lambda>c. case c of StrC s \<Rightarrow> intact s | IntC i \<Rightarrow> True | NaN \<Rightarrow> True) r)
       (rows df)"

lemma intact_cell_text:
  "(case c of StrC s \<Rightarrow> intact s | IntC i \<Rightarrow> True | NaN \<Rightarrow> True) \<Longrightarrow> intact (cell_text b c)"
  by (cases c) (simp_all add: intact_str_int intact_float)

lemma intact_row_texts:
  assumes "intact_cells df" "(l, r) \<in> set (rows df)"
  shows "list_all intact (row_texts df r)"
proof -
  have c: "\<And>c. c \<in> set r \<Longrightarrow> (case c of StrC s \<Rightarrow> intact s | IntC i \<Rightarrow> True | NaN \<Rightarrow> True)"
    using assms by (auto simp: intact_cells_def list_all_iff)
  show ?thesis
    unfolding row_texts_def list_all_iff
    by (auto intro!: intact_cell_text c dest: set_zip_rightD)
qed

lemma csv_records_lengths:
  assumes "rectangular df" "list_all intact (columns df)" "intact_cells df"
  shows "list_all (\<lambda>fs. length fs = length (columns df) \<and> list_all intact fs) (csv_records None df)"
  using assms intact_row_texts [OF assms(3)]
  by (auto simp: csv_records_def rectangular_def list_all_iff)

lemma tokenize_csv_text:
  assumes "rectangular df" and "2 \<le> length (columns df)"
    and "list_all intact (columns df)" and "intact_cells df"
  shows "tokenize (csv_text None df) =
           Inr (map c_string (columns df) # map (\<lambda>(l, r). map c_string (row_texts df r)) (rows df))"
proof -
  have "tokenize (csv_text None df) = Inr (map (map c_string) (csv_records None df))"
    unfolding csv_text_def
    by (rule tokenize_written [OF csv_records_lengths [OF assms(1,3,4)] assms(2)])
  then show ?thesis by (simp add: csv_records_def comp_def case_prod_beta)
qed

text \<open>
  The fields that the reader finds for the rows of a table, and the types that it
  settles for the columns from them.
\<close>

definition tokens_of :: "dataframe \<Rightarrow> string list list" where
  "tokens_of df = map (\<lambda>(l, r). map c_string (row_texts df r)) (rows df)"

definition dtypes_of :: "dataframe \<Rightarrow> dtype list" where
  "dtypes_of df = map (\<lambda>j. infer_dtype (map (token_at j) (tokens_of df))) [0..<length (columns df)]"

lemma frame_of_written:
  assumes "rectangular df"
  shows "frame_of_records (map c_string (columns df) # tokens_of df) =
           Inr \<lparr>pcolumns = dedup_names (map c_string (columns df)),
                pindex = map (\<lambda>i. [PInt (int i)]) [0..<length (rows df)],
                prows = map (\<lambda>r. map (\<lambda>(d, t). convert d t) (zip (dtypes_of df) r)) (tokens_of df)\<rparr>"
proof (cases "tokens_of df")
  case Nil
  then have "rows df = []" by (simp add: tokens_of_def)
  then show ?thesis using Nil by (simp add: frame_of_records_def dtypes_of_def)
next
  case (Cons d ds)
  then obtain l r rest where rs: "rows df = (l, r) # rest"
    by (cases "rows df") (auto simp: tokens_of_def)
  then have "length r = length (columns df)"
    using assms by (simp add: rectangular_def)
  then have w: "length d = length (columns df)"
    using Cons rs by (auto simp: tokens_of_def)
  have n: "length (tokens_of df) = length (rows df)" by (simp add: tokens_of_def)
  show ?thesis
    using w n unfolding frame_of_records_def dtypes_of_def Cons [symmetric]
    by (simp add: Cons Let_def)
qed

lemma parse_csv_written:
  assumes "rectangular df" and "2 \<le> length (columns df)"
    and "list_all intact (columns df)" and "intact_cells df"
  shows "parse_csv (csv_text None df) =
           Inr \<lparr>pcolumns = dedup_names (map c_string (columns df)),
                pindex = map (\<lambda>i. [PInt (int i)]) [0..<length (rows df)],
                prows = map (\<lambda>r. map (\<lambda>(d, t). convert d t) (zip (dtypes_of df) r)) (tokens_of df)\<rparr>"
  using tokenize_csv_text [OF assms] frame_of_written [OF assms(1)]
  by (simp add: parse_csv_def tokens_of_def)

lemma ends_with_append: "ends_with suffix (xs @ suffix)"
  by (simp add: ends_with_def)

lemma klifs_filename_zip: "ends_with ''.zip'' (klifs_filename d)"
proof -
  have "klifs_filename d = (''klifs_ids.'' @ strftime_Ymd d @ ''.csv'') @ ''.zip''"
    by (simp add: klifs_filename_def)
  then show ?thesis by (simp only: ends_with_append)
qed

lemma read_csv_written:
  "read_csv (klifs_filename d) (fs(klifs_filename d \<mapsto> Archive [text])) = parse_csv text"
  by (simp add: read_csv_def klifs_filename_zip)

lemma c_string_id_columns: "map c_string id_columns = id_columns"
  by (simp add: id_columns_def c_string_def)

lemma dedup_id_columns: "dedup_names id_columns = id_columns"
  by code_simp

lemma intact_id_columns: "list_all intact id_columns"
  by (simp add: id_columns_def intact_def CR_def)

lemma length_id_columns: "length id_columns = 7"
  by (simp add: id_columns_def)

lemma infer_dtype_text:
  assumes "t \<in> set toks" "\<not> is_na t" "\<not> is_int_token t" "\<not> is_float_token t" "\<not> is_bool_token t"
  shows "infer_dtype toks = Object"
proof -
  have p: "t \<in> set (filter (\<lambda>t. \<not> is_na t) toks)" using assms(1,2) by simp
  have "\<not> list_all is_int_token (filter (\<lambda>t. \<not> is_na t) toks)"
    "\<not> list_all is_float_token (filter (\<lambda>t. \<not> is_na t) toks)"
    "\<not> list_all is_bool_token (filter (\<lambda>t. \<not> is_na t) toks)"
    using p assms(3-5) unfolding list_all_iff by blast+
  moreover have "toks \<noteq> []" using assms(1) by auto
  ultimately show ?thesis by (simp add: infer_dtype_def Let_def)
qed

lemma dash_token:
  "\<not> is_na ''-''" "\<not> is_int_token ''-''" "\<not> is_float_token ''-''" "\<not> is_bool_token ''-''"
  "c_string ''-'' = ''-''"
  by code_simp+

lemma token_at_nth: "j < length r \<Longrightarrow> token_at j r = r ! j"
proof -
  assume "j < length r"
  then have "drop j r = r ! j # drop (Suc j) r" by (simp add: Cons_nth_drop_Suc)
  then show ?thesis by (simp add: token_at_def)
qed

lemma read_saved:
  assumes "save_copy e nb = Inr nb'"
  shows "read_csv (filename nb') (files nb') = parse_csv (csv_text None (structures_all nb))"
  using save_copy_Inr(3,4) [OF assms] by (simp add: read_csv_written)

lemma row_tokens:
  assumes "i < length (rows df)"
  shows "tokens_of df ! i = map c_string (row_texts df (snd (rows df ! i)))"
  using assms by (simp add: tokens_of_def case_prod_beta)

lemma parsed_cell:
  assumes rect: "rectangular df" and i: "i < length (rows df)" and j: "j < length (columns df)"
  shows "map (\<lambda>(d, t). convert d t) (zip (dtypes_of df) (tokens_of df ! i)) ! j =
           convert (infer_dtype (map (token_at j) (tokens_of df)))
             (c_string (cell_text (held_as_float j df) (snd (rows df ! i) ! j)))"
    and "token_at j (tokens_of df ! i) = c_string (cell_text (held_as_float j df) (snd (rows df ! i) ! j))"
    and "length (map (\<lambda>(d, t). convert d t) (zip (dtypes_of df) (tokens_of df ! i))) = length (columns df)"
proof -
  have len: "length (snd (rows df ! i)) = length (columns df)"
    using rect i by (auto simp: rectangular_def list_all_iff case_prod_beta dest: nth_mem)
  then have lt: "length (tokens_of df ! i) = length (columns df)"
    using i by (simp add: row_tokens)
  have ld: "length (dtypes_of df) = length (columns df)" by (simp add: dtypes_of_def)
  have d: "dtypes_of df ! j = infer_dtype (map (token_at j) (tokens_of df))"
    using j by (simp add: dtypes_of_def)
  have t: "tokens_of df ! i ! j = c_string (cell_text (held_as_float j df) (snd (rows df ! i) ! j))"
    using i j len by (simp add: row_tokens row_texts_nth)
  show "map (\<lambda>(d, t). convert d t) (zip (dtypes_of df) (tokens_of df ! i)) ! j =
           convert (infer_dtype (map (token_at j) (tokens_of df)))
             (c_string (cell_text (held_as_float j df) (snd (rows df ! i) ! j)))"
    using j lt ld d t by simp
  show "token_at j (tokens_of df ! i) = c_string (cell_text (held_as_float j df) (snd (rows df ! i) ! j))"
    using j lt t by (simp add: token_at_nth)
  show "length (map (\<lambda>(d, t). convert d t) (zip (dtypes_of df) (tokens_of df ! i))) = length (columns df)"
    using lt ld by simp
qed

lemma cell_of_nth:
  assumes "distinct cols" "length r = length cols" "j < length cols"
  shows "cell_of cols r (cols ! j) = r ! j"
  using assms by (simp add: cell_of_def map_of_zip_nth)

section \<open>The name and the form of the file\<close>

subsection \<open>Dates\<close>

lemma length_str_nat_1: "n < 10 \<Longrightarrow> length (str_nat n) = 1"
  by (subst str_nat.simps) simp

lemma length_str_nat_2: "10 \<le> n \<Longrightarrow> n < 100 \<Longrightarrow> length (str_nat n) = 2"
  by (subst str_nat.simps) (simp add: length_str_nat_1)

lemma length_str_nat_3: "100 \<le> n \<Longrightarrow> n < 1000 \<Longrightarrow> length (str_nat n) = 3"
  by (subst str_nat.simps) (simp add: length_str_nat_2)

lemma length_str_nat_4: "1000 \<le> n \<Longrightarrow> n < 10000 \<Longrightarrow> length (str_nat n) = 4"
  by (subst str_nat.simps) (simp add: length_str_nat_3)

lemma length_zero_pad_2: "n < 100 \<Longrightarrow> length (zero_pad 2 (str_nat n)) = 2"
  using length_str_nat_1 [of n] length_str_nat_2 [of n]
  by (cases "n < 10") (simp_all add: zero_pad_def)

lemma digits_no_dash: "list_all is_digit s \<Longrightarrow> filter (\<lambda>c. c \<noteq> CHR ''-'') s = s"
  by (induction s) (auto simp: is_digit_def)

lemma zero_pad_digits: "list_all is_digit s \<Longrightarrow> list_all is_digit (zero_pad w s)"
  by (auto simp: zero_pad_def list_all_iff is_digit_def)

lemma strftime_is_isoformat_without_dashes:
  assumes "valid_date d" "1000 \<le> year d"
  shows "filter (\<lambda>c. c \<noteq> CHR ''-'') (isoformat d) = strftime_Ymd d"
    and "length (strftime_Ymd d) = 8" and "list_all is_digit (strftime_Ymd d)"
proof -
  have y: "length (str_nat (year d)) = 4"
    using assms by (simp add: valid_date_def length_str_nat_4)
  then have zy: "zero_pad 4 (str_nat (year d)) = str_nat (year d)"
    by (simp add: zero_pad_def)
  have dy: "list_all is_digit (str_nat (year d))" by (rule str_nat_digits)
  have dm: "list_all is_digit (zero_pad 2 (str_nat (month d)))"
    by (rule zero_pad_digits [OF str_nat_digits])
  have dd: "list_all is_digit (zero_pad 2 (str_nat (day d)))"
    by (rule zero_pad_digits [OF str_nat_digits])
  show "filter (\<lambda>c. c \<noteq> CHR ''-'') (isoformat d) = strftime_Ymd d"
    by (simp add: isoformat_def strftime_Ymd_def zy digits_no_dash [OF dy] digits_no_dash [OF dm]
        digits_no_dash [OF dd])
  show "length (strftime_Ymd d) = 8"
    using assms y by (simp add: strftime_Ymd_def valid_date_def length_zero_pad_2)
  show "list_all is_digit (strftime_Ymd d)"
    using dy dm dd by (simp add: strftime_Ymd_def)
qed

lemma demo_date: "valid_date (today demo_env)" "1000 \<le> year (today demo_env)"
  "filter (\<lambda>c. c \<noteq> CHR ''-'') (isoformat (today demo_env)) = ''20201110''"
    apply (simp add: demo_env_def valid_date_def)
   apply (simp add: demo_env_def)
  apply code_simp
  done

subsection \<open>The text of the rows\<close>

lemma csv_text_rows:
  "csv_text None df =
     write_row (columns df) @ concat (map (\<lambda>(l, r). write_row (row_texts df r)) (rows df))"
  by (simp add: csv_text_def csv_records_def comp_def case_prod_beta split_def)

lemma column_at_cells:
  assumes "rectangular df" "j < length (columns df)"
  shows "column_at j df = map (\<lambda>(l, r). r ! j) (rows df)"
proof -
  have "(case drop j r of [] \<Rightarrow> NaN | c # cs \<Rightarrow> c) = r ! j" if "(l, r) \<in> set (rows df)" for l r
  proof -
    have "j < length r" using that assms by (auto simp: rectangular_def list_all_iff)
    then have "drop j r = r ! j # drop (Suc j) r" by (simp add: Cons_nth_drop_Suc)
    then show ?thesis by simp
  qed
  then show ?thesis by (auto simp: column_at_def)
qed

lemma not_float_complete:
  assumes "rectangular df" "j < length (columns df)"
    and "\<And>l r. (l, r) \<in> set (rows df) \<Longrightarrow> r ! j \<noteq> NaN"
  shows "\<not> held_as_float j df"
proof -
  have "\<not> list_ex (\<lambda>c. c = NaN) (map (\<lambda>(l, r). r ! j) (rows df))"
  proof
    assume "list_ex (\<lambda>c. c = NaN) (map (\<lambda>(l, r). r ! j) (rows df))"
    then obtain l r where "(l, r) \<in> set (rows df)" "r ! j = NaN"
      by (auto simp: list_ex_iff)
    then show False using assms(3) by blast
  qed
  then show ?thesis by (simp add: held_as_float_def column_at_cells [OF assms(1,2)])
qed

lemma not_float_str:
  assumes "rectangular df" "j < length (columns df)"
    and "(l, r) \<in> set (rows df)" "is_str (r ! j)"
  shows "\<not> held_as_float j df"
  using assms(3,4) by (force simp: held_as_float_def column_at_cells [OF assms(1,2)] list_ex_iff)

lemma row_texts_plain:
  assumes "\<And>j. j < length r \<Longrightarrow> \<not> held_as_float j df"
  shows "row_texts df r = map (cell_text False) r"
proof (rule nth_equalityI)
  show "length (row_texts df r) = length (map (cell_text False) r)" by simp
  fix j assume "j < length (row_texts df r)"
  then have j: "j < length r" by simp
  then show "row_texts df r ! j = map (cell_text False) r ! j"
    using assms [OF j] by (simp add: row_texts_nth)
qed

lemma row_texts_complete:
  assumes "rectangular df" "list_all (\<lambda>(l, r). list_all (\<lambda>c. c \<noteq> NaN) r) (rows df)"
    and "(l, r) \<in> set (rows df)"
  shows "row_texts df r = map (cell_text False) r"
proof (rule row_texts_plain)
  fix j assume "j < length r"
  then have j: "j < length (columns df)"
    using assms(1,3) by (auto simp: rectangular_def list_all_iff)
  show "\<not> held_as_float j df"
  proof (rule not_float_complete [OF assms(1) j])
    fix l' r' assume m: "(l', r') \<in> set (rows df)"
    then have "j < length r'" using assms(1) j by (auto simp: rectangular_def list_all_iff)
    then have "r' ! j \<in> set r'" by simp
    then show "r' ! j \<noteq> NaN" using assms(2) m by (auto simp: list_all_iff)
  qed
qed

lemma cell_text_plain:
  "cell_text False c = (case c of IntC i \<Rightarrow> str_int i | StrC s \<Rightarrow> s | NaN \<Rightarrow> [])"
  by (cases c) simp_all

subsection \<open>The persistence step\<close>

lemma seeded_csv_text: "csv_text None seeded_table = header_line @ seeded_lines"
  by code_simp

lemma demo_filename: "klifs_filename (today demo_env) = ''klifs_ids.20201110.csv.zip''"
  by code_simp

lemma demo_refusal: "refusal demo_env name = None"
  by (simp add: demo_env_def)

lemma seeded_save: "save_copy demo_env seeded_notebook = Inr seeded_saved"
  by (simp add: save_copy_def to_csv_def bind_def demo_filename demo_refusal seeded_notebook_def
      seeded_csv_text seeded_saved_def fresh_def)

lemma seeded_facts:
  "columns seeded_table = id_columns" "rectangular seeded_table" "intact_cells seeded_table"
  "list_all (\<lambda>(l, r). list_all (\<lambda>c. c \<noteq> NaN) r) (rows seeded_table)"
  "length (rows seeded_table) = 5"
     apply (simp add: seeded_table_def)
    apply code_simp
   apply code_simp
  apply code_simp
  apply (simp add: seeded_table_def seeded_rows_def)
  done

lemma seeded_plain_texts:
  "map (\<lambda>(l, r). map c_string (map (\<lambda>c. case c of IntC i \<Rightarrow> str_int i | StrC s \<Rightarrow> s | NaN \<Rightarrow> []) r))
     seeded_rows = seeded_records"
  by code_simp

text \<open>
  Claim C6. Cell 6 (\<open>save_copy\<close>) writes the table to the file named \<^verbatim>\<open>klifs_ids.\<close>, then
  the ISO form of the current date without its dashes (eight digits, \<^verbatim>\<open>YYYYMMDD\<close>),
  then \<^verbatim>\<open>.csv.zip\<close>, for a current date with a four-digit year. The file is a zip
  archive with one member. Its text is the line of the column names followed by one line
  per row that is written from the cells of the row alone: no field holds a row label.
  When the table has the seven identifier columns (and its string cells are intact, so
  that no carriage return breaks a record), pandas' reader finds in the file the seven
  names as the header and one record of seven fields per row, names the columns of the
  table that it reads by the seven names, without a column for row labels, and numbers
  the rows itself. In a table without missing cells every field is the decimal numeral
  of the integer cell or the string of the string cell.
\<close>

theorem file_name_and_format:
  assumes "save_copy e nb = Inr nb'"
    and "valid_date (today e)" and "1000 \<le> year (today e)"
  shows "filename nb' =
           ''klifs_ids.'' @ filter (\<lambda>c. c \<noteq> CHR ''-'') (isoformat (today e)) @ ''.csv.zip'' \<and>
         length (filter (\<lambda>c. c \<noteq> CHR ''-'') (isoformat (today e))) = 8 \<and>
         list_all is_digit (filter (\<lambda>c. c \<noteq> CHR ''-'') (isoformat (today e))) \<and>
         (\<exists>text.
            files nb' (filename nb') = Some (Archive [text]) \<and>
            text = write_row (columns (structures_all nb)) @
                   concat (map (\<lambda>(l, r). write_row (row_texts (structures_all nb) r))
                             (rows (structures_all nb))) \<and>
            (columns (structures_all nb) = id_columns \<and> rectangular (structures_all nb) \<and>
             intact_cells (structures_all nb) \<longrightarrow>
               tokenize text =
                 Inr (id_columns #
                      map (\<lambda>(l, r). map c_string (row_texts (structures_all nb) r))
                        (rows (structures_all nb))) \<and>
               (\<exists>p. read_csv (filename nb') (files nb') = Inr p \<and> pcolumns p = id_columns \<and>
                    pindex p = map (\<lambda>i. [PInt (int i)]) [0..<length (rows (structures_all nb))] \<and>
                    length (prows p) = length (rows (structures_all nb)) \<and>
                    list_all (\<lambda>cells. length cells = 7) (prows p)))) \<and>
         (rectangular (structures_all nb) \<and>
          list_all (\<lambda>(l, r). list_all (\<lambda>c. c \<noteq> NaN) r) (rows (structures_all nb)) \<longrightarrow>
            list_all (\<lambda>(l, r). row_texts (structures_all nb) r =
                        map (\<lambda>c. case c of IntC i \<Rightarrow> str_int i | StrC s \<Rightarrow> s | NaN \<Rightarrow> []) r)
              (rows (structures_all nb)))"
proof -
  let ?T = "structures_all nb"
  let ?text = "csv_text None ?T"
  note d = strftime_is_isoformat_without_dashes [OF assms(2,3)]
  have n: "filename nb' = klifs_filename (today e)"
    and w: "files nb' (filename nb') = Some (Archive [?text])"
    using save_copy_Inr(3,4) [OF assms(1)] by simp_all
  have name: "filename nb' =
           ''klifs_ids.'' @ filter (\<lambda>c. c \<noteq> CHR ''-'') (isoformat (today e)) @ ''.csv.zip''"
    using n d(1) by (simp add: klifs_filename_def)
  have t: "?text = write_row (columns ?T) @
                   concat (map (\<lambda>(l, r). write_row (row_texts ?T r)) (rows ?T))"
    by (rule csv_text_rows)
  have rd: "tokenize ?text =
                 Inr (id_columns # map (\<lambda>(l, r). map c_string (row_texts ?T r)) (rows ?T)) \<and>
               (\<exists>p. read_csv (filename nb') (files nb') = Inr p \<and> pcolumns p = id_columns \<and>
                    pindex p = map (\<lambda>i. [PInt (int i)]) [0..<length (rows ?T)] \<and>
                    length (prows p) = length (rows ?T) \<and>
                    list_all (\<lambda>cells. length cells = 7) (prows p))"
    if h: "columns ?T = id_columns \<and> rectangular ?T \<and> intact_cells ?T"
  proof -
    have c: "columns ?T = id_columns" and rect: "rectangular ?T" and ic: "intact_cells ?T"
      using h by simp_all
    have two: "2 \<le> length (columns ?T)" by (simp add: c length_id_columns)
    have ih: "list_all intact (columns ?T)" by (simp add: c intact_id_columns)
    have tok: "tokenize ?text =
                 Inr (id_columns # map (\<lambda>(l, r). map c_string (row_texts ?T r)) (rows ?T))"
      using tokenize_csv_text [OF rect two ih ic] by (simp add: c c_string_id_columns)
    let ?p = "\<lparr>pcolumns = dedup_names (map c_string (columns ?T)),
               pindex = map (\<lambda>i. [PInt (int i)]) [0..<length (rows ?T)],
               prows = map (\<lambda>r. map (\<lambda>(d, t). convert d t) (zip (dtypes_of ?T) r)) (tokens_of ?T)\<rparr>"
    have r: "read_csv (filename nb') (files nb') = Inr ?p"
      using read_saved [OF assms(1)] parse_csv_written [OF rect two ih ic] by simp
    have pc: "pcolumns ?p = id_columns"
      by (simp add: c c_string_id_columns dedup_id_columns)
    have ld: "length (dtypes_of ?T) = 7" by (simp add: dtypes_of_def c length_id_columns)
    have lt: "length ts = 7" if "ts \<in> set (tokens_of ?T)" for ts
      using that rect by (auto simp: tokens_of_def rectangular_def list_all_iff c length_id_columns)
    have seven: "list_all (\<lambda>cells. length cells = 7) (prows ?p)"
      using ld lt by (auto simp: list_all_iff)
    have len: "length (prows ?p) = length (rows ?T)" by (simp add: tokens_of_def)
    have "\<exists>p. read_csv (filename nb') (files nb') = Inr p \<and> pcolumns p = id_columns \<and>
                    pindex p = map (\<lambda>i. [PInt (int i)]) [0..<length (rows ?T)] \<and>
                    length (prows p) = length (rows ?T) \<and>
                    list_all (\<lambda>cells. length cells = 7) (prows p)"
      using r pc len seven by (intro exI [of _ ?p]) simp
    then show ?thesis using tok by simp
  qed
  have ex: "\<exists>text.
            files nb' (filename nb') = Some (Archive [text]) \<and>
            text = write_row (columns ?T) @
                   concat (map (\<lambda>(l, r). write_row (row_texts ?T r)) (rows ?T)) \<and>
            (columns ?T = id_columns \<and> rectangular ?T \<and> intact_cells ?T \<longrightarrow>
               tokenize text =
                 Inr (id_columns # map (\<lambda>(l, r). map c_string (row_texts ?T r)) (rows ?T)) \<and>
               (\<exists>p. read_csv (filename nb') (files nb') = Inr p \<and> pcolumns p = id_columns \<and>
                    pindex p = map (\<lambda>i. [PInt (int i)]) [0..<length (rows ?T)] \<and>
                    length (prows p) = length (rows ?T) \<and>
                    list_all (\<lambda>cells. length cells = 7) (prows p)))"
    using w t rd by (intro exI [of _ ?text]) blast
  have plain: "list_all (\<lambda>(l, r). row_texts ?T r =
                        map (\<lambda>c. case c of IntC i \<Rightarrow> str_int i | StrC s \<Rightarrow> s | NaN \<Rightarrow> []) r)
              (rows ?T)"
    if "rectangular ?T \<and> list_all (\<lambda>(l, r). list_all (\<lambda>c. c \<noteq> NaN) r) (rows ?T)"
    using that row_texts_complete [of ?T]
    by (auto simp: list_all_iff cell_text_plain [abs_def])
  show ?thesis
    using name d(2,3) ex plain by (simp add: d(1))
qed

theorem file_name_and_format_witness:
  "save_copy demo_env seeded_notebook = Inr seeded_saved \<and>
   valid_date (today demo_env) \<and> 1000 \<le> year (today demo_env) \<and>
   columns (structures_all seeded_notebook) = id_columns \<and>
   rectangular (structures_all seeded_notebook) \<and> intact_cells (structures_all seeded_notebook) \<and>
   list_all (\<lambda>(l, r). list_all (\<lambda>c. c \<noteq> NaN) r) (rows (structures_all seeded_notebook)) \<and>
   filename seeded_saved = ''klifs_ids.20201110.csv.zip'' \<and>
   files seeded_saved ''klifs_ids.20201110.csv.zip'' = Some (Archive [header_line @ seeded_lines]) \<and>
   tokenize (header_line @ seeded_lines) = Inr (id_columns # seeded_records) \<and>
   (\<exists>p. read_csv ''klifs_ids.20201110.csv.zip'' (files seeded_saved) = Inr p \<and>
        pcolumns p = id_columns \<and>
        pindex p = [[PInt 0], [PInt 1], [PInt 2], [PInt 3], [PInt 4]] \<and>
        length (prows p) = 5 \<and> list_all (\<lambda>cells. length cells = 7) (prows p))"
proof -
  let ?T = "structures_all seeded_notebook"
  have T: "?T = seeded_table" by (simp add: seeded_notebook_def)
  have rs: "rows ?T = seeded_rows" by (simp add: seeded_notebook_def seeded_table_def)
  have c: "columns ?T = id_columns" and rect: "rectangular ?T" and ic: "intact_cells ?T"
    and nn: "list_all (\<lambda>(l, r). list_all (\<lambda>c. c \<noteq> NaN) r) (rows ?T)"
    unfolding T by (rule seeded_facts)+
  have n: "filename seeded_saved = ''klifs_ids.20201110.csv.zip''"
    by (simp add: seeded_saved_def)
  have f: "files seeded_saved ''klifs_ids.20201110.csv.zip'' = Some (Archive [header_line @ seeded_lines])"
    by (simp add: seeded_saved_def)
  note t = file_name_and_format [OF seeded_save demo_date(1,2)]
  obtain written where
    t1: "files seeded_saved (filename seeded_saved) = Some (Archive [written])"
    and t2: "columns ?T = id_columns \<and> rectangular ?T \<and> intact_cells ?T \<longrightarrow>
               tokenize written = Inr (id_columns # map (\<lambda>(l, r). map c_string (row_texts ?T r)) (rows ?T)) \<and>
               (\<exists>p. read_csv (filename seeded_saved) (files seeded_saved) = Inr p \<and> pcolumns p = id_columns \<and>
                    pindex p = map (\<lambda>i. [PInt (int i)]) [0..<length (rows ?T)] \<and>
                    length (prows p) = length (rows ?T) \<and>
                    list_all (\<lambda>cells. length cells = 7) (prows p))"
    using t by (elim exE conjE) (rule that)
  have t3: "rectangular ?T \<and> list_all (\<lambda>(l, r). list_all (\<lambda>c. c \<noteq> NaN) r) (rows ?T) \<longrightarrow>
            list_all (\<lambda>(l, r). row_texts ?T r =
                        map (\<lambda>c. case c of IntC i \<Rightarrow> str_int i | StrC s \<Rightarrow> s | NaN \<Rightarrow> []) r) (rows ?T)"
    using t by (elim exE conjE)
  have wr: "written = header_line @ seeded_lines"
    using t1 f n by simp
  have t2': "tokenize written = Inr (id_columns # map (\<lambda>(l, r). map c_string (row_texts ?T r)) (rows ?T)) \<and>
               (\<exists>p. read_csv (filename seeded_saved) (files seeded_saved) = Inr p \<and> pcolumns p = id_columns \<and>
                    pindex p = map (\<lambda>i. [PInt (int i)]) [0..<length (rows ?T)] \<and>
                    length (prows p) = length (rows ?T) \<and>
                    list_all (\<lambda>cells. length cells = 7) (prows p))"
    by (rule mp [OF t2 conjI [OF c conjI [OF rect ic]]])
  have pl: "list_all (\<lambda>(l, r). row_texts ?T r =
                        map (\<lambda>c. case c of IntC i \<Rightarrow> str_int i | StrC s \<Rightarrow> s | NaN \<Rightarrow> []) r) (rows ?T)"
    by (rule mp [OF t3 conjI [OF rect nn]])
  have "map (\<lambda>(l, r). map c_string (row_texts ?T r)) (rows ?T) =
        map (\<lambda>(l, r). map c_string (map (\<lambda>c. case c of IntC i \<Rightarrow> str_int i | StrC s \<Rightarrow> s | NaN \<Rightarrow> []) r)) (rows ?T)"
    using pl by (intro map_cong) (auto simp: list_all_iff)
  also have "\<dots> = seeded_records"
    unfolding rs by (rule seeded_plain_texts)
  finally have recs: "map (\<lambda>(l, r). map c_string (row_texts ?T r)) (rows ?T) = seeded_records" .
  have tok: "tokenize (header_line @ seeded_lines) = Inr (id_columns # seeded_records)"
    using t2' wr recs by simp
  have five: "length (rows ?T) = 5" unfolding T by (rule seeded_facts)
  have idx: "map (\<lambda>i. [PInt (int i)]) [0..<5] = [[PInt 0], [PInt 1], [PInt 2], [PInt 3], [PInt 4]]"
    by (simp add: upt_rec)
  have rd: "\<exists>p. read_csv ''klifs_ids.20201110.csv.zip'' (files seeded_saved) = Inr p \<and>
        pcolumns p = id_columns \<and>
        pindex p = [[PInt 0], [PInt 1], [PInt 2], [PInt 3], [PInt 4]] \<and>
        length (prows p) = 5 \<and> list_all (\<lambda>cells. length cells = 7) (prows p)"
    using t2' unfolding n five idx by (elim conjE)
  show ?thesis
    by (rule conjI [OF seeded_save conjI [OF demo_date(1) conjI [OF demo_date(2) conjI [OF c
          conjI [OF rect conjI [OF ic conjI [OF nn conjI [OF n conjI [OF f conjI [OF tok rd]]]]]]]]]])
qed

end
